theory Spec2Isabelle
  imports Main "HOL-Library.AList"
begin

section \<open>Values\<close>

text \<open>
  JavaScript values as they travel through a sequence: step parameters, handler results
  and the responses dictionary. An object is an association list in insertion order;
  reading a key is \<open>map_of\<close>, writing one is \<open>AList.update\<close> (an existing key keeps
  its place, a new key goes last).
\<close>

datatype json =
    JUndefined
  | JNull
  | JBool bool
  | JNum int
  | JStr string
  | JArr "json list"
  | JObj "(string \<times> json) list"

type_synonym dict = "(string \<times> json) list"

text \<open>The \<open>typeof\<close> operator: it always yields a string.\<close>

fun typeof :: "json \<Rightarrow> string" where
  "typeof JUndefined = ''undefined''"
| "typeof JNull = ''object''"
| "typeof (JBool b) = ''boolean''"
| "typeof (JNum n) = ''number''"
| "typeof (JStr s) = ''string''"
| "typeof (JArr xs) = ''object''"
| "typeof (JObj kvs) = ''object''"

text \<open>Truthiness of a value (\<open>if (v)\<close>, \<open>v ? a : b\<close>, \<open>!v\<close>).\<close>

fun truthy :: "json \<Rightarrow> bool" where
  "truthy JUndefined = False"
| "truthy JNull = False"
| "truthy (JBool b) = b"
| "truthy (JNum n) = (n \<noteq> 0)"
| "truthy (JStr s) = (s \<noteq> [])"
| "truthy (JArr xs) = True"
| "truthy (JObj kvs) = True"

text \<open>Property read \<open>v[k]\<close> on a value that is not null or undefined.\<close>

fun js_prop :: "json \<Rightarrow> string \<Rightarrow> json" where
  "js_prop (JObj kvs) k = (case map_of kvs k of Some v \<Rightarrow> v | None \<Rightarrow> JUndefined)"
| "js_prop v k = JUndefined"

text \<open>Object spread \<open>{...a, ...b}\<close>: the keys of \<open>a\<close>, overwritten and extended by \<open>b\<close>.\<close>

definition spread :: "dict \<Rightarrow> dict \<Rightarrow> dict" where
  "spread a b = fold (\<lambda>kv acc. AList.update (fst kv) (snd kv) acc) b a"

section \<open>Errors\<close>

text \<open>
  \<open>ServerlessError\<close>: the user-constructible error of the wrapper's test
  (\<open>new ServerlessError(code, message, classification)\<close>). The three enrichment
  fields are unset until the wrapper writes them.
\<close>

record ServerlessError =
  httpStatus :: nat
  message :: string
  classification :: string
  functionName :: "string option"
  correlationId :: "string option"
  awsRequestId :: "string option"

text \<open>
  Everything a call of the model can throw. \<open>JsError m\<close> is \<open>new Error(m)\<close>,
  \<open>JsTypeError\<close> the runtime's own error for a property read on \<open>undefined\<close>.
  The remaining constructors are the error classes the wrapper builds.
\<close>

datatype thrown =
    JsError string
  | JsTypeError string
  | Serverless ServerlessError
  | HandledError nat thrown
  | UnhandledError nat thrown
  | DefaultError string
  | RethrowError thrown
  | ErrorWithinError thrown thrown

section \<open>The sequence model (LambdaSequence.ts)\<close>

datatype status = Assigned | Active | Completed | Skipped

datatype ILambdaFunctionType = Task | FanOut | FanIn | Other

text \<open>
  A step's \<open>onError\<close> is either a local handler function or an \<open>[arn, params]\<close>
  tuple naming a function to forward to.
\<close>

datatype OrchestratedError =
    OrchestratedErrorHandler "thrown \<Rightarrow> bool"
  | OrchestratedErrorForwarder string dict

record step =
  arn :: string
  params :: dict
  stype :: ILambdaFunctionType
  status :: status
  step_onCondition :: "(dict \<Rightarrow> bool) option"
  step_onError :: "OrchestratedError option"

record LambdaSequence =
  steps :: "step list"
  responses :: dict

definition new_LambdaSequence :: LambdaSequence where
  "new_LambdaSequence = \<lparr>steps = [], responses = []\<rparr>"

definition notASequence :: LambdaSequence where
  "notASequence = new_LambdaSequence\<lparr>steps := []\<rparr>"

text \<open>\<open>add\<close> pushes \<open>{arn, params, type, status: "assigned"}\<close>.\<close>

definition add :: "string \<Rightarrow> dict \<Rightarrow> ILambdaFunctionType \<Rightarrow> LambdaSequence \<Rightarrow> LambdaSequence" where
  "add a p t this =
     this\<lparr>steps := steps this @
       [\<lparr>arn = a, params = p, stype = t, status = Assigned,
         step_onCondition = None, step_onError = None\<rparr>]\<rparr>"

text \<open>\<open>onError\<close> has an empty body: it returns without touching the sequence.\<close>

definition onError :: "OrchestratedError \<Rightarrow> LambdaSequence \<Rightarrow> LambdaSequence" where
  "onError h this = this"

text \<open>\<open>onCondition\<close> pushes a task step that carries the predicate.\<close>

definition onCondition :: "(dict \<Rightarrow> bool) \<Rightarrow> string \<Rightarrow> dict \<Rightarrow> LambdaSequence \<Rightarrow> LambdaSequence" where
  "onCondition fn a p this =
     this\<lparr>steps := steps this @
       [\<lparr>arn = a, params = p, stype = Task, status = Assigned,
         step_onCondition = Some fn, step_onError = None\<rparr>]\<rparr>"

subsection \<open>Derived views\<close>

definition isSequence :: "LambdaSequence \<Rightarrow> bool" where
  "isSequence this = (length (steps this) > 0)"

definition remaining :: "LambdaSequence \<Rightarrow> step list" where
  "remaining this = filter (\<lambda>s. status s = Assigned) (steps this)"

definition completed :: "LambdaSequence \<Rightarrow> step list" where
  "completed this = filter (\<lambda>s. status s = Completed) (steps this)"

definition nextFn :: "LambdaSequence \<Rightarrow> step option" where
  "nextFn this = (if length (remaining this) > 0 then Some (hd (remaining this)) else None)"

definition isDone :: "LambdaSequence \<Rightarrow> bool" where
  "isDone this = (nextFn this = None)"

subsection \<open>The active step\<close>

text \<open>
  \<open>upd_first P f xs\<close> is the in-place write \<open>xs.find(P).field = ...\<close>: the first
  element that satisfies \<open>P\<close> is changed by \<open>f\<close>, every other element stays.
\<close>

fun upd_first :: "('a \<Rightarrow> bool) \<Rightarrow> ('a \<Rightarrow> 'a) \<Rightarrow> 'a list \<Rightarrow> 'a list" where
  "upd_first P f [] = []"
| "upd_first P f (x # xs) = (if P x then f x # xs else x # upd_first P f xs)"

definition no_assigned_msg :: string where
  "no_assigned_msg = ''Problem resolving activeFn: no step with status assigned found.''"

definition undefined_read_msg :: string where
  "undefined_read_msg = ''Cannot read property of undefined''"

text \<open>
  The getter \<open>activeFn\<close>. It reads, and when no step is active it writes: the first
  assigned step becomes active and the getter is read again. The result is the step
  returned (\<open>None\<close> for \<open>undefined\<close>) or the error thrown, with the sequence as the
  call leaves it.
\<close>

function activeFn :: "LambdaSequence \<Rightarrow> (thrown + step option) \<times> LambdaSequence" where
  "activeFn this =
     (if steps this = [] then (Inr None, this)
      else case filter (\<lambda>s. status s = Active) (steps this) of
             a # rest \<Rightarrow> (Inr (Some a), this)
           | [] \<Rightarrow>
               (case find (\<lambda>i. status i = Assigned) (steps this) of
                  None \<Rightarrow> (Inl (JsError no_assigned_msg), this)
                | Some st \<Rightarrow>
                    activeFn (this\<lparr>steps :=
                      upd_first (\<lambda>i. status i = Assigned) (\<lambda>i. i\<lparr>status := Active\<rparr>) (steps this)\<rparr>)))"
  by pat_completeness auto
termination
proof (relation "measure (\<lambda>t. if filter (\<lambda>s. status s = Active) (steps t) = [] then 1 else 0)")
  show "wf (measure (\<lambda>t. if filter (\<lambda>s. status s = Active) (steps t) = [] then 1 else (0::nat)))"
    by simp
next
  fix this :: LambdaSequence and st
  assume none: "filter (\<lambda>s. status s = Active) (steps this) = []"
    and some: "find (\<lambda>i. status i = Assigned) (steps this) = Some st"
  have promoted: "filter (\<lambda>s. status s = Active)
          (upd_first (\<lambda>i. status i = Assigned) (\<lambda>i. i\<lparr>status := Active\<rparr>) xs) \<noteq> []"
    if "find (\<lambda>i. status i = Assigned) xs = Some st" for xs
    using that by (induction xs) (auto split: if_splits)
  from none promoted [OF some]
  show "(this\<lparr>steps :=
          upd_first (\<lambda>i. status i = Assigned) (\<lambda>i. i\<lparr>status := Active\<rparr>) (steps this)\<rparr>, this)
        \<in> measure (\<lambda>t. if filter (\<lambda>s. status s = Active) (steps t) = [] then 1 else 0)"
    by simp
qed

declare activeFn.simps [simp del]

text \<open>
  \<open>finishStep\<close>: \<open>this._responses[this.activeFn.arn] = results\<close>, then
  \<open>this.activeFn.status = "completed"\<close>. Each statement reads the getter; a read that
  gives \<open>undefined\<close> makes the property access fail with the runtime's TypeError.
\<close>

definition finishStep :: "json \<Rightarrow> LambdaSequence \<Rightarrow> (thrown + unit) \<times> LambdaSequence" where
  "finishStep results this =
     (case activeFn this of
        (Inl e, this1) \<Rightarrow> (Inl e, this1)
      | (Inr None, this1) \<Rightarrow> (Inl (JsTypeError undefined_read_msg), this1)
      | (Inr (Some a), this1) \<Rightarrow>
          (let this2 = this1\<lparr>responses := AList.update (arn a) results (responses this1)\<rparr> in
           case activeFn this2 of
             (Inl e, this3) \<Rightarrow> (Inl e, this3)
           | (Inr None, this3) \<Rightarrow> (Inl (JsTypeError undefined_read_msg), this3)
           | (Inr (Some b), this3) \<Rightarrow>
               (Inr (), this3\<lparr>steps :=
                  upd_first (\<lambda>s. status s = Active) (\<lambda>s. s\<lparr>status := Completed\<rparr>) (steps this3)\<rparr>)))"

subsection \<open>Parameter resolution\<close>

text \<open>
  Modelled from the spec: \<open>isDynamic\<close>, of which the sources hold the declaration only
  (\<open>isDynamic(obj: IDictionary): boolean\<close>). A dynamic reference is a value of the
  sentinel shape \<open>{lookup: "stepId.jsonPath"}\<close>.
\<close>

definition isDynamic :: "json \<Rightarrow> bool" where
  "isDynamic v =
     (case v of
        JObj kvs \<Rightarrow> (case map_of kvs ''lookup'' of Some (JStr p) \<Rightarrow> True | _ \<Rightarrow> False)
      | _ \<Rightarrow> False)"

text \<open>
  Modelled from the spec: \<open>get(obj, path, default)\<close> of the library native-dash, the
  lookup of a dotted path in a dictionary. The path is split at its dots and followed
  key by key through nested objects; a miss gives the default.
\<close>

fun split_path :: "string \<Rightarrow> string list" where
  "split_path [] = [[]]"
| "split_path (c # cs) =
     (if c = CHR ''.'' then [] # split_path cs
      else case split_path cs of w # ws \<Rightarrow> (c # w) # ws | [] \<Rightarrow> [[c]])"

fun walk :: "json \<Rightarrow> string list \<Rightarrow> json" where
  "walk v [] = v"
| "walk v (k # ks) =
     (case v of
        JObj kvs \<Rightarrow> (case map_of kvs k of Some v' \<Rightarrow> walk v' ks | None \<Rightarrow> JUndefined)
      | _ \<Rightarrow> JUndefined)"

definition get :: "dict \<Rightarrow> json \<Rightarrow> json \<Rightarrow> json" where
  "get obj path dflt =
     (case path of
        JStr p \<Rightarrow> (case walk (JObj obj) (split_path p) of JUndefined \<Rightarrow> dflt | v \<Rightarrow> v)
      | _ \<Rightarrow> dflt)"

definition missing_dynamic_msg :: "string \<Rightarrow> string" where
  "missing_dynamic_msg key =
     ''The property '' @ key @
     '' was set as a dynamic property by the Orchestrator but it was dependant on getting a value which could not be found.''"

text \<open>
  The callback of the \<open>reduce\<close> in \<open>resolveRequestProperties\<close>, up to the value it
  stores: a dynamic value is replaced by its lookup in the responses, and the guard
  \<open>typeof value === undefined\<close> compares the string that \<open>typeof\<close> yields with the
  value \<open>undefined\<close>.
\<close>

definition resolve_value :: "dict \<Rightarrow> string \<Rightarrow> json \<Rightarrow> thrown + json" where
  "resolve_value resps key v =
     (if isDynamic v then
        (let value = get resps (js_prop v ''lookup'') JUndefined in
         if JStr (typeof value) = JUndefined then Inl (JsError (missing_dynamic_msg key))
         else Inr value)
      else Inr v)"

fun resolve_keys :: "dict \<Rightarrow> dict \<Rightarrow> string list \<Rightarrow> dict \<Rightarrow> thrown + dict" where
  "resolve_keys resps ps [] props = Inr props"
| "resolve_keys resps ps (key # keys) props =
     (case resolve_value resps key (js_prop (JObj ps) key) of
        Inl e \<Rightarrow> Inl e
      | Inr value \<Rightarrow> resolve_keys resps ps keys (AList.update key value props))"

definition resolveRequestProperties :: "LambdaSequence \<Rightarrow> step option \<Rightarrow> thrown + dict" where
  "resolveRequestProperties this fn =
     (case fn of
        None \<Rightarrow> Inl (JsTypeError undefined_read_msg)
      | Some f \<Rightarrow> resolve_keys (responses this) (params f) (map fst (params f)) [])"

subsection \<open>Serialization\<close>

text \<open>
  \<open>ISerializedSequence\<close>, in the two shapes \<open>toObject\<close> builds: \<open>{isSequence: false}\<close>
  alone, or \<open>isSequence: true\<close> with the counters, the arn lists, the steps and the
  responses.
\<close>

datatype ISerializedSequence =
    NotSequence
  | IsSequence
      (totalSteps: nat)
      (completedSteps: nat)
      (ser_activeFn: "string option")
      (ser_completed: "string list")
      (ser_remaining: "string list")
      (ser_steps: "step list")
      (ser_responses: dict)

definition toObject :: "LambdaSequence \<Rightarrow> (thrown + ISerializedSequence) \<times> LambdaSequence" where
  "toObject this =
     (if \<not> isSequence this then (Inr NotSequence, this)
      else
        (let n_total = length (steps this); n_completed = length (completed this) in
         case activeFn this of
           (Inl e, this1) \<Rightarrow> (Inl e, this1)
         | (Inr None, this1) \<Rightarrow>
             (Inr (IsSequence n_total n_completed None (map arn (completed this1))
                    (map arn (remaining this1)) (steps this1) (responses this1)), this1)
         | (Inr (Some a), this1) \<Rightarrow>
             (case activeFn this1 of
                (Inl e, this2) \<Rightarrow> (Inl e, this2)
              | (Inr None, this2) \<Rightarrow> (Inl (JsTypeError undefined_read_msg), this2)
              | (Inr (Some b), this2) \<Rightarrow>
                  (Inr (IsSequence n_total n_completed (Some (arn b)) (map arn (completed this2))
                         (map arn (remaining this2)) (steps this2) (responses this2)), this2))))"

text \<open>
  The method \<open>deserialize\<close> gives the object it returns and the receiver as it leaves
  it; the static \<open>LambdaSequence.deserialize\<close> calls it on a new sequence and returns
  that receiver.
\<close>

definition deserialize :: "ISerializedSequence \<Rightarrow> LambdaSequence \<Rightarrow> LambdaSequence \<times> LambdaSequence" where
  "deserialize s this =
     (case s of
        NotSequence \<Rightarrow> (notASequence, this)
      | IsSequence n_total n_completed act cs rs sts resps \<Rightarrow>
          (let this' = this\<lparr>steps := sts, responses := resps\<rparr> in (this', this')))"

definition LambdaSequence_deserialize :: "ISerializedSequence \<Rightarrow> LambdaSequence" where
  "LambdaSequence_deserialize s = snd (deserialize s new_LambdaSequence)"

subsection \<open>Handing over to the next function\<close>

text \<open>
  Modelled from the spec: \<open>buildOrchestratedRequest(body, sequence)\<close>, which is not among
  the sources. The envelope is \<open>{type: "orchestrated-message-body", body, sequence,
  headers}\<close> with the sequence in its serialized form; compression and the headers kept
  in module state are left out.
\<close>

record IOrchestratedRequest =
  req_type :: string
  req_body :: dict
  req_sequence :: ISerializedSequence

definition buildOrchestratedRequest ::
  "dict \<Rightarrow> LambdaSequence \<Rightarrow> (thrown + IOrchestratedRequest) \<times> LambdaSequence" where
  "buildOrchestratedRequest body sequence =
     (case toObject sequence of
        (Inl e, sequence') \<Rightarrow> (Inl e, sequence')
      | (Inr ser, sequence') \<Rightarrow>
          (Inr \<lparr>req_type = ''orchestrated-message-body'', req_body = body, req_sequence = ser\<rparr>,
           sequence'))"

text \<open>\<open>validateCallDepth\<close> has an empty body, so it does not appear.\<close>

definition getInvocationParameters ::
  "LambdaSequence \<Rightarrow> (thrown + string \<times> IOrchestratedRequest) \<times> LambdaSequence" where
  "getInvocationParameters this =
     (case activeFn this of
        (Inl e, this1) \<Rightarrow> (Inl e, this1)
      | (Inr fn, this1) \<Rightarrow>
          (case resolveRequestProperties this1 fn of
             Inl e \<Rightarrow> (Inl e, this1)
           | Inr body \<Rightarrow>
               (case activeFn this1 of
                  (Inl e, this2) \<Rightarrow> (Inl e, this2)
                | (Inr None, this2) \<Rightarrow> (Inl (JsTypeError undefined_read_msg), this2)
                | (Inr (Some a), this2) \<Rightarrow>
                    (case buildOrchestratedRequest body this2 of
                       (Inl e, this3) \<Rightarrow> (Inl e, this3)
                     | (Inr request, this3) \<Rightarrow> (Inr (arn a, request), this3)))))"

text \<open>
  \<open>next(currentFnResponse = {})\<close>: the default applies when the argument is
  \<open>undefined\<close>, so the parameter then holds the empty object.
\<close>

definition default_param :: "json \<Rightarrow> json \<Rightarrow> json" where
  "default_param dflt arg = (if arg = JUndefined then dflt else arg)"

definition "next" ::
  "json \<Rightarrow> LambdaSequence \<Rightarrow> (thrown + string \<times> IOrchestratedRequest) \<times> LambdaSequence" where
  "next arg this =
     (let currentFnResponse = default_param (JObj []) arg in
      case finishStep currentFnResponse this of
        (Inl e, this1) \<Rightarrow> (Inl e, this1)
      | (Inr u, this1) \<Rightarrow> getInvocationParameters this1)"

subsection \<open>Ingesting steps\<close>

definition ingest_msg :: string where
  "ingest_msg = ''Attempt to ingest steps into a LambdaSequence that already has steps!''"

fun show_nat :: "nat \<Rightarrow> string" where
  "show_nat n =
     (if n < 10 then [''0123456789'' ! n]
      else show_nat (n div 10) @ [''0123456789'' ! (n mod 10)])"

declare show_nat.simps [simp del]

text \<open>The own enumerable properties a spread \<open>...v\<close> copies.\<close>

fun own_entries :: "json \<Rightarrow> dict" where
  "own_entries (JObj kvs) = kvs"
| "own_entries (JArr xs) = zip (map show_nat [0..<length xs]) xs"
| "own_entries (JStr s) = zip (map show_nat [0..<length s]) (map (\<lambda>c. JStr [c]) s)"
| "own_entries v = []"

text \<open>
  \<open>ingestSteps(request, steps)\<close>, with \<open>steps\<close> already parsed. The step list is
  stored as it comes. The getter is read for the active step's parameters and again
  for every step in the \<open>map\<close>; once a step is active every read gives that step, so
  one read stands for them.
\<close>

definition ingestSteps :: "json \<Rightarrow> step list \<Rightarrow> LambdaSequence \<Rightarrow> (thrown + unit) \<times> LambdaSequence" where
  "ingestSteps request sts this =
     (if length (steps this) > 0 then (Inl (JsError ingest_msg), this)
      else
        (case activeFn (this\<lparr>steps := sts\<rparr>) of
           (Inl e, this1) \<Rightarrow> (Inl e, this1)
         | (Inr fn, this1) \<Rightarrow>
             (let activeFnParams = (case fn of None \<Rightarrow> [] | Some a \<Rightarrow> params a);
                  transformedRequest =
                    (if typeof request = ''object'' then spread activeFnParams (own_entries request)
                     else spread activeFnParams [(''request'', request)])
              in (Inr (), this1\<lparr>steps :=
                    map (\<lambda>s. case fn of
                                None \<Rightarrow> s
                              | Some a \<Rightarrow> if arn s = arn a then s\<lparr>params := transformedRequest\<rparr> else s)
                        (steps this1)\<rparr>))))"

subsection \<open>The legacy colon form\<close>

fun show_int :: "int \<Rightarrow> string" where
  "show_int i = (if i < 0 then CHR ''-'' # show_nat (nat (- i)) else show_nat (nat i))"

fun join_comma :: "string list \<Rightarrow> string" where
  "join_comma [] = []"
| "join_comma [x] = x"
| "join_comma (x # y # ys) = x @ CHR '','' # join_comma (y # ys)"

text \<open>\<open>String(v)\<close>.\<close>

fun js_String :: "json \<Rightarrow> string" where
  "js_String JUndefined = ''undefined''"
| "js_String JNull = ''null''"
| "js_String (JBool b) = (if b then ''true'' else ''false'')"
| "js_String (JNum n) = show_int n"
| "js_String (JStr s) = s"
| "js_String (JArr xs) =
     join_comma (map (\<lambda>x. if x = JUndefined \<or> x = JNull then [] else js_String x) xs)"
| "js_String (JObj kvs) = ''[object Object]''"

text \<open>\<open>v.slice(1)\<close>: strings and arrays have the method, nothing else does.\<close>

fun slice1 :: "json \<Rightarrow> thrown + json" where
  "slice1 (JStr s) = Inr (JStr (drop 1 s))"
| "slice1 (JArr xs) = Inr (JArr (drop 1 xs))"
| "slice1 v = Inl (JsTypeError ''currentValue.slice is not a function'')"

fun dynamic_keys :: "dict \<Rightarrow> string list \<Rightarrow> (string \<times> json) list \<Rightarrow> thrown + (string \<times> json) list" where
  "dynamic_keys ps [] prev = Inr prev"
| "dynamic_keys ps (key # keys) prev =
     (let currentValue = js_prop (JObj ps) key;
          valueIsDynamic = (take 1 (js_String currentValue) = '':'')
      in if valueIsDynamic then
           (case slice1 currentValue of
              Inl e \<Rightarrow> Inl e
            | Inr from \<Rightarrow> dynamic_keys ps keys (prev @ [(key, from)]))
         else dynamic_keys ps keys prev)"

text \<open>
  The getter \<open>dynamicProperties\<close>: the keys of the active step whose value leads with
  a colon, each with the rest of the value. Nothing in the sources reads it.
\<close>

definition dynamicProperties ::
  "LambdaSequence \<Rightarrow> (thrown + (string \<times> json) list) \<times> LambdaSequence" where
  "dynamicProperties this =
     (case activeFn this of
        (Inl e, this1) \<Rightarrow> (Inl e, this1)
      | (Inr None, this1) \<Rightarrow> (Inr [], this1)
      | (Inr (Some a), this1) \<Rightarrow> (dynamic_keys (params a) (map fst (params a)) [], this1))"

subsection \<open>Runs of operations\<close>

text \<open>
  The calls that build and advance a sequence, and the sequence each leaves behind,
  whether the call returns or throws.
\<close>

datatype operation =
    Add string dict ILambdaFunctionType
  | OnCondition "dict \<Rightarrow> bool" string dict
  | IngestSteps json "step list"
  | Next json
  | FinishStep json
  | ReadActiveFn

fun perform :: "operation \<Rightarrow> LambdaSequence \<Rightarrow> LambdaSequence" where
  "perform (Add a p t) this = add a p t this"
| "perform (OnCondition fn a p) this = onCondition fn a p this"
| "perform (IngestSteps request sts) this = snd (ingestSteps request sts this)"
| "perform (Next r) this = snd (next r this)"
| "perform (FinishStep r) this = snd (finishStep r this)"
| "perform ReadActiveFn this = snd (activeFn this)"

fun run :: "operation list \<Rightarrow> LambdaSequence \<Rightarrow> LambdaSequence" where
  "run [] this = this"
| "run (op # ops) this = run ops (perform op this)"

text \<open>The place of a status in the progression assigned, active, completed, skipped.\<close>

fun status_rank :: "status \<Rightarrow> nat" where
  "status_rank Assigned = 0"
| "status_rank Active = 1"
| "status_rank Completed = 2"
| "status_rank Skipped = 3"

text \<open>
  What the calls of a run are to keep: a sequence with at most one active step keeps at
  most one, and step by step the status is where it was or further on.
\<close>

definition keeps_order :: "LambdaSequence \<Rightarrow> LambdaSequence \<Rightarrow> bool" where
  "keeps_order s s' =
     ((length (filter (\<lambda>x. status x = Active) (steps s)) \<le> 1 \<longrightarrow>
       length (filter (\<lambda>x. status x = Active) (steps s')) \<le> 1) \<and>
      list_all2 (\<lambda>x y. status_rank (status x) \<le> status_rank (status y)) (steps s) (steps s'))"

section \<open>The wrapper (wrapper.ts)\<close>

subsection \<open>String replacement\<close>

text \<open>
  \<open>s.replace(pattern, replacement)\<close> with a string pattern: the first occurrence of
  the pattern is replaced, and in the replacement \<open>$$\<close>, \<open>$&\<close>, the dollar with a
  backquote and the dollar with a quote stand for a dollar, the match, the text before
  it and the text after it.
\<close>

fun find_first :: "string \<Rightarrow> string \<Rightarrow> (string \<times> string) option" where
  "find_first pat [] = (if pat = [] then Some ([], []) else None)"
| "find_first pat (c # cs) =
     (if take (length pat) (c # cs) = pat then Some ([], drop (length pat) (c # cs))
      else case find_first pat cs of
             None \<Rightarrow> None
           | Some (front, rest) \<Rightarrow> Some (c # front, rest))"

fun substitution :: "string \<Rightarrow> string \<Rightarrow> string \<Rightarrow> string \<Rightarrow> string" where
  "substitution matched front rest [] = []"
| "substitution matched front rest [c] = [c]"
| "substitution matched front rest (c # d # cs) =
     (if c = CHR ''$'' \<and> d = CHR ''$'' then CHR ''$'' # substitution matched front rest cs
      else if c = CHR ''$'' \<and> d = CHR ''&'' then matched @ substitution matched front rest cs
      else if c = CHR ''$'' \<and> d = CHR 0x60 then front @ substitution matched front rest cs
      else if c = CHR ''$'' \<and> d = CHR 0x27 then rest @ substitution matched front rest cs
      else c # substitution matched front rest (d # cs))"

definition js_replace :: "string \<Rightarrow> string \<Rightarrow> string \<Rightarrow> string" where
  "js_replace s pat replacement =
     (case find_first pat s of
        None \<Rightarrow> s
      | Some (front, rest) \<Rightarrow> front @ substitution pat front rest replacement @ rest)"

subsection \<open>What the wrapper works with\<close>

text \<open>The platform context, with the two fields the wrapper reads from it.\<close>

record IAWSLambaContext =
  ctx_functionName :: string
  ctx_awsRequestId :: string

text \<open>
  The handler context \<open>{...context, correlationId: log.getCorrelationId(), ...}\<close>, with
  the two fields the error handling reads from it.
\<close>

record IHandlerContext =
  hc_correlationId :: string
  hc_awsRequestId :: string

record IWrapperOptions =
  sequenceTracker :: "string option"

text \<open>
  Modelled from the spec: the error matcher \<open>ErrorMeta\<close>, its expectations and
  \<open>findError\<close>, none of which is among the sources. An expectation is a predicate, a
  code and an optional handling (a callback, a function to forward to); the default
  policy is one of four kinds; the first expectation whose predicate accepts the thrown
  value is the one found. A callback or handler function returns a value or throws.
\<close>

record ErrorHandling =
  callback :: "(thrown \<Rightarrow> thrown + json) option"
  forwardTo :: "string option"

record ErrorHandler =
  identifiedBy :: "thrown \<Rightarrow> bool"
  code :: nat
  handling :: "ErrorHandling option"

datatype DefaultHandling =
    DefaultPolicy
  | HandlerFn "thrown \<Rightarrow> thrown + json"
  | ErrorForwarding string
  | DefaultErrorPolicy string

record ErrorMeta =
  expectations :: "ErrorHandler list"
  defaultHandling :: DefaultHandling
  defaultErrorCode :: nat

definition findError :: "thrown \<Rightarrow> ErrorMeta \<Rightarrow> ErrorHandler option" where
  "findError e errorMeta = find (\<lambda>h. identifiedBy h e) (expectations errorMeta)"

text \<open>
  Modelled from the spec: the \<open>type\<close> tag and the message of an error. The tags are
  those the taxonomy lists; a plain error has none; \<open>RethrowError\<close> copies the tag of
  the error it wraps (dist/esnext/errors/RethrowError.js).
\<close>

fun error_type :: "thrown \<Rightarrow> string" where
  "error_type (JsError m) = []"
| "error_type (JsTypeError m) = []"
| "error_type (Serverless se) = ''serverless-error''"
| "error_type (HandledError c e) = ''handled-error''"
| "error_type (UnhandledError c e) = ''unhandled-error''"
| "error_type (DefaultError m) = ''default-error''"
| "error_type (RethrowError e) = error_type e"
| "error_type (ErrorWithinError e e') = ''error-within-error''"

fun error_message :: "thrown \<Rightarrow> string" where
  "error_message (JsError m) = m"
| "error_message (JsTypeError m) = m"
| "error_message (Serverless se) = message se"
| "error_message (HandledError c e) = error_message e"
| "error_message (UnhandledError c e) = error_message e"
| "error_message (DefaultError m) = m"
| "error_message (RethrowError e) = error_message e"
| "error_message (ErrorWithinError e e') = error_message e'"

text \<open>
  What one function is invoked with: the envelope of the next step, a thrown error, the
  parameters of an \<open>onError\<close> tuple, or the tracker's status of a sequence (the
  correlation id and the sequence it is computed from stand for the status).
\<close>

datatype payload =
    Orchestrated IOrchestratedRequest
  | ErrorPayload thrown
  | Params dict
  | TrackerStatus string LambdaSequence

text \<open>
  The gateway success response without its headers, and what the wrapper gives its
  caller: the handler's result (\<open>undefined\<close> when the function body ends without a
  \<open>return\<close>), a gateway response, or the gateway error response that
  \<open>convertToApiGatewayError\<close> builds from an error.
\<close>

record IApiGatewayResponse =
  statusCode :: nat
  body :: string

datatype wrapper_return =
    Result json
  | GatewayResponse IApiGatewayResponse
  | GatewayError thrown

text \<open>
  The surroundings of one invocation: what \<open>invokeLambda\<close> does for an arn and a
  payload (it throws or gives the platform's response), the correlation id the logger
  holds, \<open>isLambdaProxyRequest\<close> of the event and of the gateway part unboxed from it,
  and \<open>JSON.stringify\<close>.
\<close>

record env =
  invokeLambda :: "string \<Rightarrow> payload \<Rightarrow> thrown + json"
  getCorrelationId :: string
  eventIsProxyRequest :: bool
  apiGatewayIsProxyRequest :: bool
  stringify :: "json \<Rightarrow> string"

text \<open>
  One run of the user's handler: what it returns or throws, the error handling it
  registered through \<open>context.errorMgmt\<close>, and the status code it set through
  \<open>setSuccessCode\<close>. The handler is taken to leave the sequence of its context as
  it found it.
\<close>

record handler_run =
  fn_outcome :: "thrown + json"
  errorMgmt :: ErrorMeta
  fn_statusCode :: "nat option"

text \<open>
  The state the wrapper changes: the sequence unboxed from the event, the sequence
  registered through \<open>registerSequence\<close> (module state), and the invocations made so
  far, in order.
\<close>

record wstate =
  sequence :: LambdaSequence
  newSequence :: "LambdaSequence option"
  calls :: "(string \<times> payload) list"

definition invoke :: "env \<Rightarrow> string \<Rightarrow> payload \<Rightarrow> wstate \<Rightarrow> (thrown + json) \<times> wstate" where
  "invoke ev fn p st = (invokeLambda ev fn p, st\<lparr>calls := calls st @ [(fn, p)]\<rparr>)"

definition build_handlerContext :: "env \<Rightarrow> IAWSLambaContext \<Rightarrow> IHandlerContext" where
  "build_handlerContext ev context =
     \<lparr>hc_correlationId = getCorrelationId ev, hc_awsRequestId = ctx_awsRequestId context\<rparr>"

subsection \<open>The stages after the handler has returned\<close>

text \<open>
  Each stage gives \<open>Inr ()\<close> when it is done or skipped and \<open>Inl e\<close> when something
  in it throws \<open>e\<close>; the \<open>try\<close> block has no handler of its own around any of them.
\<close>

text \<open>\<open>if (sequence.isSequence && !sequence.isDone)\<close>: \<open>next\<close>, then the invocation.\<close>

definition continue_sequence :: "env \<Rightarrow> json \<Rightarrow> wstate \<Rightarrow> (thrown + unit) \<times> wstate" where
  "continue_sequence ev result st =
     (if isSequence (sequence st) \<and> \<not> isDone (sequence st) then
        (case next result (sequence st) of
           (Inl e, sequence') \<Rightarrow> (Inl e, st\<lparr>sequence := sequence'\<rparr>)
         | (Inr (fn, requestBody), sequence') \<Rightarrow>
             (case invoke ev fn (Orchestrated requestBody) (st\<lparr>sequence := sequence'\<rparr>) of
                (Inl e, st') \<Rightarrow> (Inl e, st')
              | (Inr invokeParams, st') \<Rightarrow> (Inr (), st')))
      else (Inr (), st))"

text \<open>
  The registered sequence: \<open>getNewSequence\<close> gives it, or a sequence without steps
  when none is registered; \<open>invokeNewSequence\<close> calls its \<open>start()\<close>, which is
  \<open>invokeLambda(...this.getInvocationParameters())\<close>.
\<close>

definition getNewSequence :: "wstate \<Rightarrow> LambdaSequence" where
  "getNewSequence st = (case newSequence st of Some registered \<Rightarrow> registered | None \<Rightarrow> notASequence)"

definition invokeNewSequence :: "env \<Rightarrow> wstate \<Rightarrow> (thrown + json) \<times> wstate" where
  "invokeNewSequence ev st =
     (case newSequence st of
        None \<Rightarrow> (Inr JUndefined, st)
      | Some registered \<Rightarrow>
          (case getInvocationParameters registered of
             (Inl e, registered') \<Rightarrow> (Inl e, st\<lparr>newSequence := Some registered'\<rparr>)
           | (Inr (fn, requestBody), registered') \<Rightarrow>
               invoke ev fn (Orchestrated requestBody) (st\<lparr>newSequence := Some registered'\<rparr>)))"

text \<open>\<open>if (getNewSequence().isSequence)\<close>: the registered sequence is started.\<close>

definition start_new_sequence :: "env \<Rightarrow> wstate \<Rightarrow> (thrown + unit) \<times> wstate" where
  "start_new_sequence ev st =
     (if isSequence (getNewSequence st) then
        (case invokeNewSequence ev st of
           (Inl e, st') \<Rightarrow> (Inl e, st')
         | (Inr seqResponse, st') \<Rightarrow> (Inr (), st'))
      else (Inr (), st))"

text \<open>
  \<open>if (options.sequenceTracker && sequence.isSequence)\<close>: the tracker is invoked
  with the status of the sequence. An empty string is a falsy option.
\<close>

definition notify_tracker :: "env \<Rightarrow> IWrapperOptions \<Rightarrow> wstate \<Rightarrow> (thrown + unit) \<times> wstate" where
  "notify_tracker ev options st =
     (case sequenceTracker options of
        None \<Rightarrow> (Inr (), st)
      | Some tracker \<Rightarrow>
          (if tracker \<noteq> [] \<and> isSequence (sequence st) then
             (case invoke ev tracker (TrackerStatus (getCorrelationId ev) (sequence st)) st of
                (Inl e, st') \<Rightarrow> (Inl e, st')
              | (Inr r, st') \<Rightarrow> (Inr (), st'))
           else (Inr (), st)))"

text \<open>The return values; 200 is \<open>Success\<close>, 204 \<open>NoContent\<close>, 202 \<open>Accepted\<close>.\<close>

definition return_values :: "env \<Rightarrow> handler_run \<Rightarrow> json \<Rightarrow> wrapper_return" where
  "return_values ev hr result =
     (if eventIsProxyRequest ev then
        GatewayResponse
          \<lparr>statusCode =
             (case fn_statusCode hr of
                Some c \<Rightarrow> if c \<noteq> 0 then c else if truthy result then 200 else 204
              | None \<Rightarrow> if truthy result then 200 else 204),
           body =
             (if truthy result then (case result of JStr s \<Rightarrow> s | _ \<Rightarrow> stringify ev result)
              else [])\<rparr>
      else Result result)"

text \<open>
  The \<open>try\<close> block from the call of the handler on. It ends with the value returned,
  or with the error thrown together with what the variable \<open>result\<close> holds at that
  moment (\<open>undefined\<close> until the handler has returned).
\<close>

definition wrapper_try ::
  "env \<Rightarrow> IWrapperOptions \<Rightarrow> handler_run \<Rightarrow> wstate \<Rightarrow> (thrown \<times> json + wrapper_return) \<times> wstate" where
  "wrapper_try ev options hr st =
     (case fn_outcome hr of
        Inl e \<Rightarrow> (Inl (e, JUndefined), st)
      | Inr result \<Rightarrow>
          (case continue_sequence ev result st of
             (Inl e, st1) \<Rightarrow> (Inl (e, result), st1)
           | (Inr u, st1) \<Rightarrow>
               (case start_new_sequence ev st1 of
                  (Inl e, st2) \<Rightarrow> (Inl (e, result), st2)
                | (Inr u, st2) \<Rightarrow>
                    (case notify_tracker ev options st2 of
                       (Inl e, st3) \<Rightarrow> (Inl (e, result), st3)
                     | (Inr u, st3) \<Rightarrow> (Inr (return_values ev hr result), st3)))))"

subsection \<open>The error handling\<close>

text \<open>The four writes on a \<open>ServerlessError\<close> before it is thrown again.\<close>

definition enrich :: "IAWSLambaContext \<Rightarrow> IHandlerContext \<Rightarrow> ServerlessError \<Rightarrow> ServerlessError" where
  "enrich context handlerContext found =
     (let found1 = found\<lparr>functionName := Some (ctx_functionName context)\<rparr>;
          found2 = found1\<lparr>classification :=
                      js_replace (classification found1) ''aws-orchestrate/''
                        (the (functionName found1) @ ''/'')\<rparr>;
          found3 = found2\<lparr>correlationId := Some (hc_correlationId handlerContext)\<rparr>
      in found3\<lparr>awsRequestId := Some (hc_awsRequestId handlerContext)\<rparr>)"

text \<open>\<open>isApiGatewayRequest ? return convertToApiGatewayError(err) : throw err\<close>.\<close>

definition surface :: "bool \<Rightarrow> thrown \<Rightarrow> wstate \<Rightarrow> (thrown + wrapper_return) \<times> wstate" where
  "surface isApiGatewayRequest err st =
     (if isApiGatewayRequest then (Inr (GatewayError err), st) else (Inl err, st))"

text \<open>An error that an expectation of the handler matched.\<close>

definition found_error ::
  "env \<Rightarrow> bool \<Rightarrow> ErrorHandler \<Rightarrow> thrown \<Rightarrow> wstate \<Rightarrow> (thrown + wrapper_return) \<times> wstate" where
  "found_error ev isApiGatewayRequest found e st =
     (case handling found of
        None \<Rightarrow> surface isApiGatewayRequest (HandledError (code found) e) st
      | Some h \<Rightarrow>
          (let forward =
                 (case forwardTo h of
                    None \<Rightarrow> (Inr (Result JUndefined), st)
                  | Some fn \<Rightarrow>
                      (if fn = [] then (Inr (Result JUndefined), st)
                       else case invoke ev fn (ErrorPayload e) st of
                              (Inl e', st') \<Rightarrow> (Inl e', st')
                            | (Inr r, st') \<Rightarrow> (Inr (Result JUndefined), st')))
           in case callback h of
                None \<Rightarrow> forward
              | Some cb \<Rightarrow>
                  (case cb e of
                     Inl e' \<Rightarrow> (Inl e', st)
                   | Inr resolvedLocally \<Rightarrow>
                       (if \<not> truthy resolvedLocally
                        then surface isApiGatewayRequest (HandledError (code found) e) st
                        else forward))))"

text \<open>An error that no expectation matched: the \<open>switch\<close> over the default handling.\<close>

definition unfound_error ::
  "env \<Rightarrow> bool \<Rightarrow> ErrorMeta \<Rightarrow> thrown \<Rightarrow> json \<Rightarrow> wstate \<Rightarrow> (thrown + wrapper_return) \<times> wstate" where
  "unfound_error ev isApiGatewayRequest errorMeta e result st =
     (case defaultHandling errorMeta of
        HandlerFn defaultHandlerFn \<Rightarrow>
          (case defaultHandlerFn e of
             Inl e2 \<Rightarrow> surface isApiGatewayRequest (UnhandledError (defaultErrorCode errorMeta) e) st
           | Inr passed \<Rightarrow>
               (if passed = JBool True then
                  (if isApiGatewayRequest then
                     (Inr (GatewayResponse
                        \<lparr>statusCode = (if truthy result then 202 else 204),
                         body = (if truthy result then stringify ev result else [])\<rparr>), st)
                   else (Inr (Result result), st))
                else (Inr (Result JUndefined), st)))
      | ErrorForwarding fn \<Rightarrow>
          (case invoke ev fn (ErrorPayload e) st of
             (Inl e', st') \<Rightarrow> (Inl e', st')
           | (Inr r, st') \<Rightarrow> (Inr (Result JUndefined), st'))
      | DefaultErrorPolicy m \<Rightarrow>
          surface isApiGatewayRequest (DefaultError (if m \<noteq> [] then m else error_message e)) st
      | DefaultPolicy \<Rightarrow>
          surface isApiGatewayRequest (UnhandledError (defaultErrorCode errorMeta) e) st)"

text \<open>
  The inner \<open>try\<close> of the \<open>catch\<close> block: \<open>Inr\<close> is what it returns to the caller,
  \<open>Inl\<close> what it throws to the inner \<open>catch\<close>.
\<close>

definition handle_error ::
  "env \<Rightarrow> IAWSLambaContext \<Rightarrow> ErrorMeta \<Rightarrow> thrown \<Rightarrow> json \<Rightarrow> wstate \<Rightarrow> (thrown + wrapper_return) \<times> wstate" where
  "handle_error ev context errorMeta e result st =
     (let isApiGatewayRequest = apiGatewayIsProxyRequest ev in
      case e of
        Serverless found \<Rightarrow>
          (Inl (Serverless (enrich context (build_handlerContext ev context) found)), st)
      | _ \<Rightarrow>
          (case findError e errorMeta of
             Some found \<Rightarrow> found_error ev isApiGatewayRequest found e st
           | None \<Rightarrow> unfound_error ev isApiGatewayRequest errorMeta e result st))"

text \<open>
  The inner \<open>catch (errorOfError)\<close>. \<open>conductorErrorHandler\<close> and the function
  \<open>resolvedByConductor\<close> built on it are defined there and used nowhere; the getter is
  read for them all the same.
\<close>

definition conductor_catch ::
  "env \<Rightarrow> thrown \<Rightarrow> thrown \<Rightarrow> wstate \<Rightarrow> (thrown + wrapper_return) \<times> wstate" where
  "conductor_catch ev e errorOfError st =
     (case errorOfError of
        Serverless se \<Rightarrow> (Inl errorOfError, st)
      | _ \<Rightarrow>
          (case activeFn (sequence st) of
             (Inl thrown_by_getter, sequence') \<Rightarrow> (Inl thrown_by_getter, st\<lparr>sequence := sequence'\<rparr>)
           | (Inr fn, sequence') \<Rightarrow>
               (let st1 = st\<lparr>sequence := sequence'\<rparr>;
                    conductorErrorHandler =
                      (case fn of
                         Some a \<Rightarrow>
                           (case step_onError a of
                              Some (OrchestratedErrorHandler h) \<Rightarrow> Some h
                            | _ \<Rightarrow> None)
                       | None \<Rightarrow> None);
                    forwardedByConductor =
                      (case fn of
                         Some a \<Rightarrow>
                           (case step_onError a of
                              Some (OrchestratedErrorForwarder target ps) \<Rightarrow> Some (target, ps)
                            | _ \<Rightarrow> None)
                       | None \<Rightarrow> None)
                in case forwardedByConductor of
                     Some (target, ps) \<Rightarrow>
                       (case invoke ev target (Params ps) st1 of
                          (Inl e', st2) \<Rightarrow> (Inl e', st2)
                        | (Inr r, st2) \<Rightarrow> (Inr (Result JUndefined), st2))
                   | None \<Rightarrow>
                       (if error_type errorOfError = ''unhandled-error'' \<or>
                           error_type errorOfError = ''handled-error'' \<or>
                           error_type errorOfError = ''default-error''
                        then (Inl (RethrowError errorOfError), st1)
                        else (Inl (ErrorWithinError e errorOfError), st1)))))"

text \<open>
  The wrapped handler from the call of the user's function on: the \<open>try\<close> block, and
  on a throw the error handling with its own \<open>catch\<close>. \<open>Inr\<close> is what the caller
  gets back, \<open>Inl\<close> what is thrown at it.
\<close>

definition wrapper ::
  "env \<Rightarrow> IWrapperOptions \<Rightarrow> IAWSLambaContext \<Rightarrow> handler_run \<Rightarrow> wstate \<Rightarrow> (thrown + wrapper_return) \<times> wstate" where
  "wrapper ev options context hr st =
     (case wrapper_try ev options hr st of
        (Inr v, st1) \<Rightarrow> (Inr v, st1)
      | (Inl (e, result), st1) \<Rightarrow>
          (case handle_error ev context (errorMgmt hr) e result st1 of
             (Inr v, st2) \<Rightarrow> (Inr v, st2)
           | (Inl errorOfError, st2) \<Rightarrow> conductor_catch ev e errorOfError st2))"

subsection \<open>Unboxing the event\<close>

text \<open>
  The event the platform delivers, in the three shapes the static
  \<open>LambdaSequence.from\<close> tells apart: a gateway proxy request (with what remains of it
  once headers and body are taken off), an orchestrated request (with its sequence,
  decompressed), and a bare request (the event itself, and its \<open>_sequence\<close> property
  parsed, \<open>None\<close> when the event is no object or has none). Bodies and headers are left
  out.
\<close>

datatype event =
    LambdaProxyRequest json
  | OrchestratedRequest ISerializedSequence
  | BareRequest json "step list option"

text \<open>What \<open>from\<close> returns, without \<open>request\<close> and \<open>headers\<close>.\<close>

record ILambaSequenceFromResponse =
  from_sequence :: LambdaSequence
  from_apiGateway :: "json option"

text \<open>
  \<open>LambdaSequence.from(event)\<close> runs the method on a new sequence. A proxy request
  gets \<open>apiGateway\<close> and a sequence without steps; an orchestrated request gets its
  sequence deserialized; a bare request with \<open>_sequence\<close> has the steps ingested into
  the new sequence, which is the one returned. The method ends with a read of
  \<open>this.activeFn\<close>, which finds no steps in the first three cases.
\<close>

definition LambdaSequence_from :: "event \<Rightarrow> thrown + ILambaSequenceFromResponse" where
  "LambdaSequence_from event =
     (case event of
        LambdaProxyRequest gateway \<Rightarrow>
          Inr \<lparr>from_sequence = notASequence, from_apiGateway = Some gateway\<rparr>
      | OrchestratedRequest ser \<Rightarrow>
          Inr \<lparr>from_sequence = LambdaSequence_deserialize ser, from_apiGateway = None\<rparr>
      | BareRequest request None \<Rightarrow>
          Inr \<lparr>from_sequence = notASequence, from_apiGateway = None\<rparr>
      | BareRequest request (Some sts) \<Rightarrow>
          (case ingestSteps request sts new_LambdaSequence of
             (Inl e, this) \<Rightarrow> Inl e
           | (Inr u, this) \<Rightarrow>
               (case activeFn this of
                  (Inl e, this') \<Rightarrow> Inl e
                | (Inr a, this') \<Rightarrow> Inr \<lparr>from_sequence = this', from_apiGateway = None\<rparr>)))"

text \<open>
  The two readings of \<open>isLambdaProxyRequest\<close> for one invocation: of the event it
  holds for a proxy request and for nothing else; of \<open>apiGateway\<close> it is false when
  \<open>apiGateway\<close> is \<open>undefined\<close>, and what the surroundings say otherwise.
\<close>

definition invocation_env :: "env \<Rightarrow> event \<Rightarrow> ILambaSequenceFromResponse \<Rightarrow> env" where
  "invocation_env ev event unboxed =
     ev\<lparr>eventIsProxyRequest := (case event of LambdaProxyRequest gateway \<Rightarrow> True | _ \<Rightarrow> False),
        apiGatewayIsProxyRequest :=
          (case from_apiGateway unboxed of
             None \<Rightarrow> False
           | Some gateway \<Rightarrow> apiGatewayIsProxyRequest ev)\<rparr>"

text \<open>
  The wrapped handler on an event: the event is unboxed before the \<open>try\<close> block, so
  an error of \<open>from\<close> is thrown at the caller as it is; otherwise the wrapper runs on
  the sequence unboxed, with the sequence registered in module state and no invocation
  made yet.
\<close>

definition wrapped ::
  "env \<Rightarrow> IWrapperOptions \<Rightarrow> IAWSLambaContext \<Rightarrow> handler_run \<Rightarrow> LambdaSequence option \<Rightarrow> event
     \<Rightarrow> (thrown + wrapper_return) \<times> wstate" where
  "wrapped ev options context hr registered event =
     (case LambdaSequence_from event of
        Inl e \<Rightarrow> (Inl e, \<lparr>sequence = notASequence, newSequence = registered, calls = []\<rparr>)
      | Inr unboxed \<Rightarrow>
          wrapper (invocation_env ev event unboxed) options context hr
            \<lparr>sequence = from_sequence unboxed, newSequence = registered, calls = []\<rparr>)"

section \<open>Facts about the active step\<close>

lemma activeFn_empty: "steps s = [] \<Longrightarrow> activeFn s = (Inr None, s)"
  by (simp add: activeFn.simps)

lemma activeFn_active:
  "filter (\<lambda>x. status x = Active) (steps s) = a # rest \<Longrightarrow> activeFn s = (Inr (Some a), s)"
  by (subst activeFn.simps) auto

lemma activeFn_stuck:
  "steps s \<noteq> [] \<Longrightarrow> filter (\<lambda>x. status x = Active) (steps s) = [] \<Longrightarrow>
   find (\<lambda>x. status x = Assigned) (steps s) = None \<Longrightarrow>
   activeFn s = (Inl (JsError no_assigned_msg), s)"
  by (subst activeFn.simps) auto

lemma upd_first_split:
  "\<forall>x\<in>set pre. \<not> P x \<Longrightarrow> P a \<Longrightarrow> upd_first P f (pre @ a # post) = pre @ f a # post"
  by (induction pre) auto

lemma find_split:
  "\<forall>x\<in>set pre. \<not> P x \<Longrightarrow> P a \<Longrightarrow> find P (pre @ a # post) = Some a"
  by (induction pre) auto

lemma activeFn_promote:
  assumes "steps s = pre @ a # post" "status a = Assigned"
    "\<forall>x\<in>set pre. status x \<noteq> Assigned" "\<forall>x\<in>set (pre @ a # post). status x \<noteq> Active"
  shows "activeFn s = (Inr (Some (a\<lparr>status := Active\<rparr>)), s\<lparr>steps := pre @ a\<lparr>status := Active\<rparr> # post\<rparr>)"
proof -
  have none: "filter (\<lambda>x. status x = Active) (steps s) = []"
    using assms(1,4) by (simp add: filter_empty_conv)
  have fnd: "find (\<lambda>x. status x = Assigned) (steps s) = Some a"
    using assms(1,2,3) by (simp add: find_split)
  have upd: "upd_first (\<lambda>i. status i = Assigned) (\<lambda>i. i\<lparr>status := Active\<rparr>) (steps s) = pre @ a\<lparr>status := Active\<rparr> # post"
    using assms(1,2,3) by (simp add: upd_first_split)
  have act: "filter (\<lambda>x. status x = Active) (steps (s\<lparr>steps := pre @ a\<lparr>status := Active\<rparr> # post\<rparr>)) = [a\<lparr>status := Active\<rparr>]"
    using assms(4) by (auto simp: filter_empty_conv)
  have "activeFn s = activeFn (s\<lparr>steps := pre @ a\<lparr>status := Active\<rparr> # post\<rparr>)"
    using assms(1) none fnd upd by (subst activeFn.simps) simp
  also have "\<dots> = (Inr (Some (a\<lparr>status := Active\<rparr>)), s\<lparr>steps := pre @ a\<lparr>status := Active\<rparr> # post\<rparr>)"
    by (rule activeFn_active [where rest = "[]"]) (rule act)
  finally show ?thesis .
qed

lemma resolve_keys_ok: "\<exists>body. resolve_keys rs ps ks props = Inr body"
  by (induction ks arbitrary: props) (auto simp: resolve_value_def split: sum.splits)


lemma activeFn_current:
  assumes "steps s = pre @ a # post"
    and "\<forall>x\<in>set (pre @ post). status x \<noteq> Active"
    and "status a = Active \<or> status a = Assigned \<and> (\<forall>x\<in>set pre. status x \<noteq> Assigned)"
  shows "activeFn s = (Inr (Some (a\<lparr>status := Active\<rparr>)), s\<lparr>steps := pre @ a\<lparr>status := Active\<rparr> # post\<rparr>)"
proof (cases "status a = Active")
  case True
  then have same: "a\<lparr>status := Active\<rparr> = a" by (cases a) simp
  have "filter (\<lambda>x. status x = Active) (steps s) = [a]"
    using assms(1,2) True by (auto simp: filter_empty_conv)
  then have "activeFn s = (Inr (Some a), s)" by (rule activeFn_active)
  moreover have "s\<lparr>steps := pre @ a # post\<rparr> = s" using assms(1) by (cases s) simp
  ultimately show ?thesis by (simp add: same)
next
  case False
  with assms(3) have "status a = Assigned" "\<forall>x\<in>set pre. status x \<noteq> Assigned" by auto
  moreover have "\<forall>x\<in>set (pre @ a # post). status x \<noteq> Active"
    using assms(2) False by auto
  ultimately show ?thesis using assms(1) by (intro activeFn_promote)
qed

lemma finishStep_current:
  assumes "steps s = pre @ a # post"
    and "\<forall>x\<in>set (pre @ post). status x \<noteq> Active"
    and "status a = Active \<or> status a = Assigned \<and> (\<forall>x\<in>set pre. status x \<noteq> Assigned)"
  shows "finishStep r s =
           (Inr (), s\<lparr>steps := pre @ a\<lparr>status := Completed\<rparr> # post,
                      responses := AList.update (arn a) r (responses s)\<rparr>)"
proof -
  let ?a = "a\<lparr>status := Active\<rparr>"
  let ?s1 = "s\<lparr>steps := pre @ ?a # post\<rparr>"
  let ?s2 = "?s1\<lparr>responses := AList.update (arn ?a) r (responses ?s1)\<rparr>"
  have first: "activeFn s = (Inr (Some ?a), ?s1)"
    using assms by (rule activeFn_current)
  have "filter (\<lambda>x. status x = Active) (steps ?s2) = [?a]"
    using assms(2) by (auto simp: filter_empty_conv)
  then have second: "activeFn ?s2 = (Inr (Some ?a), ?s2)" by (rule activeFn_active)
  have upd: "upd_first (\<lambda>x. status x = Active) (\<lambda>x. x\<lparr>status := Completed\<rparr>) (steps ?s2)
               = pre @ a\<lparr>status := Completed\<rparr> # post"
    using assms(2) by (simp add: upd_first_split)
  show ?thesis
    unfolding finishStep_def first using second upd by (simp add: Let_def)
qed

lemma find_Some_split:
  "find P xs = Some b \<Longrightarrow> \<exists>pre post. xs = pre @ b # post \<and> P b \<and> (\<forall>x\<in>set pre. \<not> P x)"
proof (induction xs)
  case Nil
  then show ?case by simp
next
  case (Cons x xs)
  show ?case
  proof (cases "P x")
    case True
    with Cons.prems have "x = b" by simp
    with True have "x # xs = [] @ b # xs \<and> P b \<and> (\<forall>y\<in>set []. \<not> P y)" by simp
    then show ?thesis by blast
  next
    case False
    with Cons obtain pre post where "xs = pre @ b # post" "P b" "\<forall>y\<in>set pre. \<not> P y" by auto
    with False have "x # xs = (x # pre) @ b # post \<and> P b \<and> (\<forall>y\<in>set (x # pre). \<not> P y)" by simp
    then show ?thesis by blast
  qed
qed

lemma toObject_active:
  assumes "filter (\<lambda>x. status x = Active) (steps s) = a # rest"
  shows "toObject s =
           (Inr (IsSequence (length (steps s)) (length (completed s)) (Some (arn a))
                  (map arn (completed s)) (map arn (remaining s)) (steps s) (responses s)), s)"
proof -
  have "steps s \<noteq> []" using assms by auto
  moreover have "activeFn s = (Inr (Some a), s)" using assms by (rule activeFn_active)
  ultimately show ?thesis by (simp add: toObject_def isSequence_def Let_def)
qed

lemma getInvocationParameters_promote:
  assumes "steps s = pre @ b # post" "status b = Assigned"
    and "\<forall>x\<in>set pre. status x \<noteq> Assigned" "\<forall>x\<in>set (pre @ b # post). status x \<noteq> Active"
    and "s2 = s\<lparr>steps := pre @ b\<lparr>status := Active\<rparr> # post\<rparr>"
  shows "\<exists>body. resolveRequestProperties s2 (Some (b\<lparr>status := Active\<rparr>)) = Inr body \<and>
           getInvocationParameters s =
             (Inr (arn b, \<lparr>req_type = ''orchestrated-message-body'', req_body = body,
                            req_sequence = IsSequence (length (steps s2)) (length (completed s2))
                              (Some (arn b)) (map arn (completed s2)) (map arn (remaining s2))
                              (steps s2) (responses s2)\<rparr>), s2)"
proof -
  let ?b = "b\<lparr>status := Active\<rparr>"
  have first: "activeFn s = (Inr (Some ?b), s2)"
    unfolding assms(5) using assms(1-4) by (rule activeFn_promote)
  obtain body where body: "resolveRequestProperties s2 (Some ?b) = Inr body"
    using resolve_keys_ok [of "responses s2" "params b" "map fst (params b)" "[]"]
    by (auto simp: resolveRequestProperties_def)
  have act: "filter (\<lambda>x. status x = Active) (steps s2) = [?b]"
    unfolding assms(5) using assms(4) by (auto simp: filter_empty_conv)
  then have second: "activeFn s2 = (Inr (Some ?b), s2)" by (rule activeFn_active)
  have ser: "toObject s2 =
           (Inr (IsSequence (length (steps s2)) (length (completed s2)) (Some (arn ?b))
                  (map arn (completed s2)) (map arn (remaining s2)) (steps s2) (responses s2)), s2)"
    using act by (rule toObject_active)
  have "getInvocationParameters s =
             (Inr (arn b, \<lparr>req_type = ''orchestrated-message-body'', req_body = body,
                            req_sequence = IsSequence (length (steps s2)) (length (completed s2))
                              (Some (arn b)) (map arn (completed s2)) (map arn (remaining s2))
                              (steps s2) (responses s2)\<rparr>), s2)"
    unfolding getInvocationParameters_def first
    using body second ser by (simp add: buildOrchestratedRequest_def)
  with body show ?thesis by blast
qed


lemma current_split:
  assumes one: "length (filter (\<lambda>x. status x = Active) xs) \<le> 1"
    and some: "\<exists>x\<in>set xs. status x = Active \<or> status x = Assigned"
  shows "\<exists>pre a post. xs = pre @ a # post \<and> (\<forall>x\<in>set (pre @ post). status x \<noteq> Active) \<and>
           (status a = Active \<or> status a = Assigned \<and> (\<forall>x\<in>set pre. status x \<noteq> Assigned))"
proof (cases "\<exists>x\<in>set xs. status x = Active")
  case True
  then obtain pre a post where sp: "xs = pre @ a # post" "status a = Active"
      "\<forall>x\<in>set pre. status x \<noteq> Active"
    using split_list_first_prop [of xs "\<lambda>x. status x = Active"] by blast
  have "length (filter (\<lambda>x. status x = Active) post) = 0"
    using one sp by simp
  then have "\<forall>x\<in>set post. status x \<noteq> Active"
    by (simp add: filter_empty_conv)
  with sp show ?thesis
    by (intro exI [of _ pre] exI [of _ a] exI [of _ post]) auto
next
  case False
  with some have "\<exists>x\<in>set xs. status x = Assigned" by blast
  then obtain pre a post where sp: "xs = pre @ a # post" "status a = Assigned"
      "\<forall>x\<in>set pre. status x \<noteq> Assigned"
    using split_list_first_prop [of xs "\<lambda>x. status x = Assigned"] by blast
  with False show ?thesis
    by (intro exI [of _ pre] exI [of _ a] exI [of _ post]) auto
qed
section \<open>Claims about the sequence\<close>

subsection \<open>A sequence without steps\<close>

text \<open>
  C10. On a sequence without steps the getter \<open>activeFn\<close> gives \<open>undefined\<close>, throws
  nothing and leaves the sequence as it is; \<open>finishStep\<close> and \<open>next\<close> then fail with
  the runtime's TypeError for the property read on \<open>undefined\<close>, and the sequence is
  unchanged. A sequence that has steps but none active and none assigned fails in all
  three with the descriptive error of the getter instead.
\<close>

theorem zero_step_sequence:
  "(steps s = [] \<longrightarrow>
      activeFn s = (Inr None, s) \<and>
      finishStep r s = (Inl (JsTypeError undefined_read_msg), s) \<and>
      next r s = (Inl (JsTypeError undefined_read_msg), s)) \<and>
   (steps s \<noteq> [] \<and> (\<forall>x\<in>set (steps s). status x \<noteq> Active \<and> status x \<noteq> Assigned) \<longrightarrow>
      activeFn s = (Inl (JsError no_assigned_msg), s) \<and>
      finishStep r s = (Inl (JsError no_assigned_msg), s) \<and>
      next r s = (Inl (JsError no_assigned_msg), s))"
proof (intro conjI impI)
  assume "steps s = []"
  then show "activeFn s = (Inr None, s)" by (rule activeFn_empty)
  then show "finishStep r s = (Inl (JsTypeError undefined_read_msg), s)"
    by (simp add: finishStep_def)
  then show "next r s = (Inl (JsTypeError undefined_read_msg), s)"
    by (simp add: next_def finishStep_def \<open>activeFn s = (Inr None, s)\<close>)
next
  assume h: "steps s \<noteq> [] \<and> (\<forall>x\<in>set (steps s). status x \<noteq> Active \<and> status x \<noteq> Assigned)"
  then have "filter (\<lambda>x. status x = Active) (steps s) = []"
    by (simp add: filter_empty_conv)
  moreover from h have "find (\<lambda>x. status x = Assigned) (steps s) = None"
    by (simp add: find_None_iff)
  ultimately show stuck: "activeFn s = (Inl (JsError no_assigned_msg), s)"
    using h by (intro activeFn_stuck) simp_all
  then show "finishStep r s = (Inl (JsError no_assigned_msg), s)"
    by (simp add: finishStep_def)
  from stuck show "next r s = (Inl (JsError no_assigned_msg), s)"
    by (simp add: next_def finishStep_def)
qed

theorem zero_step_sequence_witness:
  "steps new_LambdaSequence = [] \<and>
   activeFn new_LambdaSequence = (Inr None, new_LambdaSequence) \<and>
   finishStep (JNum 1) new_LambdaSequence = (Inl (JsTypeError undefined_read_msg), new_LambdaSequence) \<and>
   next (JNum 1) new_LambdaSequence = (Inl (JsTypeError undefined_read_msg), new_LambdaSequence) \<and>
   steps (new_LambdaSequence\<lparr>steps := [\<lparr>arn = ''A'', params = [], stype = Task, status = Completed,
      step_onCondition = None, step_onError = None\<rparr>]\<rparr>) \<noteq> [] \<and>
   next (JNum 1) (new_LambdaSequence\<lparr>steps := [\<lparr>arn = ''A'', params = [], stype = Task, status = Completed,
      step_onCondition = None, step_onError = None\<rparr>]\<rparr>) =
     (Inl (JsError no_assigned_msg),
      new_LambdaSequence\<lparr>steps := [\<lparr>arn = ''A'', params = [], stype = Task, status = Completed,
        step_onCondition = None, step_onError = None\<rparr>]\<rparr>)"
  using zero_step_sequence [of new_LambdaSequence "JNum 1"]
    zero_step_sequence [of "new_LambdaSequence\<lparr>steps := [\<lparr>arn = ''A'', params = [], stype = Task,
      status = Completed, step_onCondition = None, step_onError = None\<rparr>]\<rparr>" "JNum 1"]
  by (simp add: new_LambdaSequence_def)

subsection \<open>Advancing to the next step\<close>

text \<open>
  C1, amended. On a sequence with at most one active step and at least one active or
  assigned step, the current step is the active one or, when none is active, the first
  assigned one. \<open>next(currentFnResponse)\<close> marks it completed and records the response
  under its arn (the empty object when the argument is \<open>undefined\<close>). When an
  assigned step is left, the first of them is made active and \<open>next\<close> returns its arn
  with the envelope built from its resolved parameters and the serialized sequence;
  when none is left, \<open>next\<close> throws the getter's error, the step staying completed
  and the response recorded.
\<close>

theorem next_completes_and_promotes:
  assumes one: "length (filter (\<lambda>x. status x = Active) (steps s)) \<le> 1"
    and some: "\<exists>x\<in>set (steps s). status x = Active \<or> status x = Assigned"
  shows "\<exists>pre a post.
      steps s = pre @ a # post \<and>
      (\<forall>x\<in>set (pre @ post). status x \<noteq> Active) \<and>
      (status a = Active \<or> status a = Assigned \<and> (\<forall>x\<in>set pre. status x \<noteq> Assigned)) \<and>
      (let currentFnResponse = default_param (JObj []) r;
           s1 = s\<lparr>steps := pre @ a\<lparr>status := Completed\<rparr> # post,
                   responses := AList.update (arn a) currentFnResponse (responses s)\<rparr>
       in finishStep currentFnResponse s = (Inr (), s1) \<and>
          (case find (\<lambda>x. status x = Assigned) (steps s1) of
             None \<Rightarrow> next r s = (Inl (JsError no_assigned_msg), s1)
           | Some b \<Rightarrow>
               (\<exists>pre2 post2 body.
                  steps s1 = pre2 @ b # post2 \<and> (\<forall>x\<in>set pre2. status x \<noteq> Assigned) \<and>
                  (let s2 = s1\<lparr>steps := pre2 @ b\<lparr>status := Active\<rparr> # post2\<rparr>
                   in resolveRequestProperties s2 (Some (b\<lparr>status := Active\<rparr>)) = Inr body \<and>
                      next r s =
                        (Inr (arn b,
                              \<lparr>req_type = ''orchestrated-message-body'', req_body = body,
                               req_sequence =
                                 IsSequence (length (steps s2)) (length (completed s2))
                                   (Some (arn b)) (map arn (completed s2))
                                   (map arn (remaining s2)) (steps s2) (responses s2)\<rparr>),
                         s2)))))"
proof -
  from current_split [OF one some] obtain pre a post where
    sp: "steps s = pre @ a # post"
    and others: "\<forall>x\<in>set (pre @ post). status x \<noteq> Active"
    and cur: "status a = Active \<or> status a = Assigned \<and> (\<forall>x\<in>set pre. status x \<noteq> Assigned)"
    by blast
  define cr where "cr = default_param (JObj []) r"
  define s1 where "s1 = s\<lparr>steps := pre @ a\<lparr>status := Completed\<rparr> # post,
                   responses := AList.update (arn a) cr (responses s)\<rparr>"
  have fin: "finishStep cr s = (Inr (), s1)"
    unfolding s1_def using sp others cur by (rule finishStep_current)
  have nxt: "next r s = getInvocationParameters s1"
    using fin by (simp add: next_def cr_def)
  have steps1: "steps s1 = pre @ a\<lparr>status := Completed\<rparr> # post"
    by (simp add: s1_def)
  have noact: "\<forall>x\<in>set (steps s1). status x \<noteq> Active"
    using others by (auto simp: steps1)
  have rest: "case find (\<lambda>x. status x = Assigned) (steps s1) of
             None \<Rightarrow> next r s = (Inl (JsError no_assigned_msg), s1)
           | Some b \<Rightarrow>
               (\<exists>pre2 post2 body.
                  steps s1 = pre2 @ b # post2 \<and> (\<forall>x\<in>set pre2. status x \<noteq> Assigned) \<and>
                  (let s2 = s1\<lparr>steps := pre2 @ b\<lparr>status := Active\<rparr> # post2\<rparr>
                   in resolveRequestProperties s2 (Some (b\<lparr>status := Active\<rparr>)) = Inr body \<and>
                      next r s =
                        (Inr (arn b,
                              \<lparr>req_type = ''orchestrated-message-body'', req_body = body,
                               req_sequence =
                                 IsSequence (length (steps s2)) (length (completed s2))
                                   (Some (arn b)) (map arn (completed s2))
                                   (map arn (remaining s2)) (steps s2) (responses s2)\<rparr>),
                         s2)))"
  proof (cases "find (\<lambda>x. status x = Assigned) (steps s1)")
    case None
    have "steps s1 \<noteq> []" by (simp add: steps1)
    moreover have "filter (\<lambda>x. status x = Active) (steps s1) = []"
      using noact by (simp add: filter_empty_conv)
    ultimately have "activeFn s1 = (Inl (JsError no_assigned_msg), s1)"
      using None by (rule activeFn_stuck)
    then show ?thesis
      using None by (simp add: nxt getInvocationParameters_def)
  next
    case (Some b)
    from find_Some_split [OF Some] obtain pre2 post2 where
      sp2: "steps s1 = pre2 @ b # post2" "status b = Assigned" "\<forall>x\<in>set pre2. status x \<noteq> Assigned"
      by blast
    have noact2: "\<forall>x\<in>set (pre2 @ b # post2). status x \<noteq> Active"
      using noact sp2(1) by simp
    from getInvocationParameters_promote [OF sp2 noact2 refl]
    show ?thesis using Some sp2(1,3) by (auto simp: nxt Let_def)
  qed
  show ?thesis
    using sp others cur fin rest unfolding s1_def cr_def Let_def by blast
qed

theorem next_witness:
  "length (filter (\<lambda>x. status x = Active)
      [\<lparr>arn = ''A'', params = [], stype = Task, status = Active,
                   step_onCondition = None, step_onError = None\<rparr>,
       \<lparr>arn = ''B'', params = [(''n'', JNum 2)], stype = Task, status = Assigned,
                   step_onCondition = None, step_onError = None\<rparr>]) \<le> 1 \<and>
   next (JNum 1)
      \<lparr>steps = [\<lparr>arn = ''A'', params = [], stype = Task, status = Active,
                   step_onCondition = None, step_onError = None\<rparr>,
                 \<lparr>arn = ''B'', params = [(''n'', JNum 2)], stype = Task, status = Assigned,
                   step_onCondition = None, step_onError = None\<rparr>],
        responses = []\<rparr> =
   (Inr (''B'',
      \<lparr>req_type = ''orchestrated-message-body'', req_body = [(''n'', JNum 2)],
        req_sequence = IsSequence 2 1 (Some ''B'') [''A''] []
          [\<lparr>arn = ''A'', params = [], stype = Task, status = Completed,
                   step_onCondition = None, step_onError = None\<rparr>,
           \<lparr>arn = ''B'', params = [(''n'', JNum 2)], stype = Task, status = Active,
                   step_onCondition = None, step_onError = None\<rparr>]
          [(''A'', JNum 1)]\<rparr>),
    \<lparr>steps = [\<lparr>arn = ''A'', params = [], stype = Task, status = Completed,
                   step_onCondition = None, step_onError = None\<rparr>,
              \<lparr>arn = ''B'', params = [(''n'', JNum 2)], stype = Task, status = Active,
                   step_onCondition = None, step_onError = None\<rparr>],
      responses = [(''A'', JNum 1)]\<rparr>)"
  using next_completes_and_promotes [of
      "\<lparr>steps = [\<lparr>arn = ''A'', params = [], stype = Task, status = Active,
                   step_onCondition = None, step_onError = None\<rparr>,
                 \<lparr>arn = ''B'', params = [(''n'', JNum 2)], stype = Task, status = Assigned,
                   step_onCondition = None, step_onError = None\<rparr>],
        responses = []\<rparr>" "JNum 1"]
  by (simp add: next_def finishStep_def getInvocationParameters_def activeFn.simps
      resolveRequestProperties_def buildOrchestratedRequest_def toObject_def isSequence_def
      completed_def remaining_def default_param_def resolve_value_def isDynamic_def Let_def
      numeral_2_eq_2)

text \<open>
  C1 as stated fails on a sequence with two active steps: \<open>next\<close> completes the
  first of them and hands over to the second, which was active already; the assigned
  step stays assigned and it is not the arn returned.
\<close>

theorem two_active_counterexample:
  "(let s = \<lparr>steps = [\<lparr>arn = ''A'', params = [], stype = Task, status = Active,
                   step_onCondition = None, step_onError = None\<rparr>,
                 \<lparr>arn = ''B'', params = [], stype = Task, status = Active,
                   step_onCondition = None, step_onError = None\<rparr>,
                 \<lparr>arn = ''C'', params = [], stype = Task, status = Assigned,
                   step_onCondition = None, step_onError = None\<rparr>],
        responses = []\<rparr>
    in map_sum id fst (fst (next (JNum 1) s)) = Inr ''B'' \<and>
       map status (steps (snd (next (JNum 1) s))) = [Completed, Active, Assigned])"
  by (simp add: next_def finishStep_def getInvocationParameters_def activeFn.simps
      resolveRequestProperties_def buildOrchestratedRequest_def toObject_def isSequence_def
      completed_def remaining_def default_param_def)


subsection \<open>What a read of the getter leaves behind\<close>

lemma upd_first_id: "\<forall>x\<in>set xs. \<not> P x \<Longrightarrow> upd_first P f xs = xs"
  by (induction xs) auto

lemma activeFn_snd:
  "snd (activeFn s) =
     s\<lparr>steps := (if filter (\<lambda>x. status x = Active) (steps s) = []
                  then upd_first (\<lambda>i. status i = Assigned) (\<lambda>i. i\<lparr>status := Active\<rparr>) (steps s)
                  else steps s)\<rparr>"
proof (cases "filter (\<lambda>x. status x = Active) (steps s)")
  case (Cons a rest)
  then show ?thesis by (simp add: activeFn_active)
next
  case Nil
  show ?thesis
  proof (cases "find (\<lambda>x. status x = Assigned) (steps s)")
    case None
    then have "\<forall>x\<in>set (steps s). status x \<noteq> Assigned" by (simp add: find_None_iff)
    then have same: "upd_first (\<lambda>i. status i = Assigned) (\<lambda>i. i\<lparr>status := Active\<rparr>) (steps s) = steps s"
      by (simp add: upd_first_id)
    show ?thesis
      using Nil None by (subst activeFn.simps) (simp add: same)
  next
    case (Some b)
    from find_Some_split [OF Some] obtain pre post where
      sp: "steps s = pre @ b # post" "status b = Assigned" "\<forall>x\<in>set pre. status x \<noteq> Assigned"
      by blast
    have "\<forall>x\<in>set (steps s). status x \<noteq> Active"
      using Nil by (simp add: filter_empty_conv)
    then have "\<forall>x\<in>set (pre @ b # post). status x \<noteq> Active"
      by (simp add: sp(1))
    from activeFn_promote [OF sp this] show ?thesis
      using Nil sp by (simp add: upd_first_split)
  qed
qed



subsection \<open>Serialization\<close>





subsection \<open>Parameter resolution\<close>

text \<open>
  C3. The claim is that a dynamic reference whose path is missing from the responses
  makes the resolution fail with an error naming the key. The code does not: the guard
  compares \<open>typeof value\<close>, a string, with \<open>undefined\<close>, so no resolution ever
  throws, and \<open>next\<close> hands the value \<open>undefined\<close> to the next function under that
  key.
\<close>

theorem missing_lookup_passes_undefined:
  "(\<forall>s f. \<exists>body. resolveRequestProperties s (Some f) = Inr body) \<and>
   map_sum id (\<lambda>r. (fst r, req_body (snd r)))
     (fst (next (JNum 1)
        \<lparr>steps = [\<lparr>arn = ''A'', params = [], stype = Task, status = Active,
                     step_onCondition = None, step_onError = None\<rparr>,
                   \<lparr>arn = ''B'',
                     params = [(''foo'', JObj [(''type'', JStr ''orchestrated-dynamic-property''),
                                                (''lookup'', JStr ''Z.data'')])],
                     stype = Task, status = Assigned,
                     step_onCondition = None, step_onError = None\<rparr>],
          responses = []\<rparr>)) =
   Inr (''B'', [(''foo'', JUndefined)])"
proof
  show "\<forall>s f. \<exists>body. resolveRequestProperties s (Some f) = Inr body"
    using resolve_keys_ok by (simp add: resolveRequestProperties_def)
  show "map_sum id (\<lambda>r. (fst r, req_body (snd r)))
     (fst (next (JNum 1)
        \<lparr>steps = [\<lparr>arn = ''A'', params = [], stype = Task, status = Active,
                     step_onCondition = None, step_onError = None\<rparr>,
                   \<lparr>arn = ''B'',
                     params = [(''foo'', JObj [(''type'', JStr ''orchestrated-dynamic-property''),
                                                (''lookup'', JStr ''Z.data'')])],
                     stype = Task, status = Assigned,
                     step_onCondition = None, step_onError = None\<rparr>],
          responses = []\<rparr>)) =
   Inr (''B'', [(''foo'', JUndefined)])"
    by (simp add: next_def finishStep_def getInvocationParameters_def activeFn.simps
      resolveRequestProperties_def buildOrchestratedRequest_def toObject_def isSequence_def
      completed_def remaining_def default_param_def resolve_value_def isDynamic_def Let_def get_def)
qed

text \<open>
  C9. The claim is that a string value beginning with a colon is resolved like a dynamic
  reference whose path is the rest of the string. The code does not: resolution
  passes every string through as it is, while the reference object beside it is
  resolved; a string has no \<open>lookup\<close> to read a path from; only the getter
  \<open>dynamicProperties\<close>, which resolution never reads, recognizes the colon form.
\<close>

theorem colon_string_passes_through:
  "(\<forall>resps key s. resolve_value resps key (JStr s) = Inr (JStr s)) \<and>
   (\<forall>resps s. get resps (js_prop (JStr s) ''lookup'') JUndefined = JUndefined) \<and>
   resolveRequestProperties
     \<lparr>steps = [], responses = [(''A'', JObj [(''data'', JNum 7)])]\<rparr>
     (Some \<lparr>arn = ''B'',
            params = [(''legacy'', JStr '':A.data''),
                      (''modern'', JObj [(''lookup'', JStr ''A.data'')])],
            stype = Task, status = Active, step_onCondition = None, step_onError = None\<rparr>) =
   Inr [(''legacy'', JStr '':A.data''), (''modern'', JNum 7)] \<and>
   fst (dynamicProperties
     \<lparr>steps = [\<lparr>arn = ''B'',
            params = [(''legacy'', JStr '':A.data''),
                      (''modern'', JObj [(''lookup'', JStr ''A.data'')])],
            stype = Task, status = Active, step_onCondition = None, step_onError = None\<rparr>],
       responses = [(''A'', JObj [(''data'', JNum 7)])]\<rparr>) =
   Inr [(''legacy'', JStr ''A.data'')]"
  by (simp add: resolveRequestProperties_def resolve_value_def isDynamic_def get_def
      dynamicProperties_def activeFn.simps)

subsection \<open>Conditional steps\<close>

text \<open>
  C7. The claim is that a step added by \<open>onCondition\<close> whose predicate is false is
  skipped when its turn comes. The code does not: the predicate is stored and never
  called, so \<open>next\<close> makes the conditional step active and returns its arn for
  invocation; the step after it stays assigned.
\<close>

theorem false_condition_still_invoked:
  "(let s = add ''C'' [] Task
              (onCondition (\<lambda>responses. False) ''B'' []
                 (add ''A'' [] Task new_LambdaSequence))
    in map_sum id fst (fst (next (JNum 1) s)) = Inr ''B'' \<and>
       map status (steps (snd (next (JNum 1) s))) = [Completed, Active, Assigned])"
  by (simp add: next_def finishStep_def getInvocationParameters_def activeFn.simps
      resolveRequestProperties_def buildOrchestratedRequest_def toObject_def isSequence_def
      completed_def remaining_def default_param_def resolve_value_def isDynamic_def Let_def
      add_def onCondition_def new_LambdaSequence_def)


subsection \<open>Runs of operations\<close>

lemma keeps_order_refl: "keeps_order s s"
  by (simp add: keeps_order_def list_all2_refl)

lemma keeps_order_trans: "keeps_order s t \<Longrightarrow> keeps_order t u \<Longrightarrow> keeps_order s u"
proof -
  assume st: "keeps_order s t" and tu: "keeps_order t u"
  have "list_all2 (\<lambda>x y. status_rank (status x) \<le> status_rank (status y)) (steps s) (steps u)"
  proof (rule list_all2_trans)
    show "list_all2 (\<lambda>x y. status_rank (status x) \<le> status_rank (status y)) (steps s) (steps t)"
      using st by (simp add: keeps_order_def)
    show "list_all2 (\<lambda>x y. status_rank (status x) \<le> status_rank (status y)) (steps t) (steps u)"
      using tu by (simp add: keeps_order_def)
  qed simp
  with st tu show ?thesis by (simp add: keeps_order_def)
qed

lemma rank_upd_first:
  "(\<And>x. P x \<Longrightarrow> status_rank (status x) \<le> status_rank (status (f x))) \<Longrightarrow>
   list_all2 (\<lambda>x y. status_rank (status x) \<le> status_rank (status y)) xs (upd_first P f xs)"
  by (induction xs) (auto simp: list_all2_refl)

lemma promote_one:
  "filter (\<lambda>x. status x = Active) xs = [] \<Longrightarrow>
   length (filter (\<lambda>x. status x = Active)
     (upd_first (\<lambda>i. status i = Assigned) (\<lambda>i. i\<lparr>status := Active\<rparr>) xs)) \<le> 1"
  by (induction xs) (auto split: if_splits)

lemma complete_fewer:
  "length (filter (\<lambda>x. status x = Active)
     (upd_first (\<lambda>x. status x = Active) (\<lambda>x. x\<lparr>status := Completed\<rparr>) xs))
   \<le> length (filter (\<lambda>x. status x = Active) xs)"
  by (induction xs) auto

lemma keeps_order_activeFn: "activeFn s = (r, s') \<Longrightarrow> keeps_order s s'"
proof -
  assume "activeFn s = (r, s')"
  then have "s' = snd (activeFn s)" by simp
  then have st: "steps s' = (if filter (\<lambda>x. status x = Active) (steps s) = []
                  then upd_first (\<lambda>i. status i = Assigned) (\<lambda>i. i\<lparr>status := Active\<rparr>) (steps s)
                  else steps s)"
    by (simp add: activeFn_snd)
  have "list_all2 (\<lambda>x y. status_rank (status x) \<le> status_rank (status y)) (steps s) (steps s')"
    unfolding st by (auto simp: list_all2_refl intro!: rank_upd_first)
  moreover have "length (filter (\<lambda>x. status x = Active) (steps s)) \<le> 1 \<longrightarrow>
       length (filter (\<lambda>x. status x = Active) (steps s')) \<le> 1"
    unfolding st using promote_one [of "steps s"] by auto
  ultimately show ?thesis by (simp add: keeps_order_def)
qed

lemma keeps_order_responses: "keeps_order s (s\<lparr>responses := x\<rparr>)"
  by (simp add: keeps_order_def list_all2_refl)

lemma keeps_order_complete:
  "keeps_order s (s\<lparr>steps := upd_first (\<lambda>x. status x = Active) (\<lambda>x. x\<lparr>status := Completed\<rparr>) (steps s)\<rparr>)"
  using complete_fewer [of "steps s"]
  by (auto simp: keeps_order_def intro!: rank_upd_first)

lemma keeps_order_finishStep: "finishStep r s = (res, s') \<Longrightarrow> keeps_order s s'"
  unfolding finishStep_def Let_def
  by (auto split: prod.splits sum.splits option.splits
      intro: keeps_order_activeFn
      intro: keeps_order_trans [OF keeps_order_activeFn keeps_order_trans [OF keeps_order_responses keeps_order_activeFn]]
        keeps_order_trans [OF keeps_order_activeFn keeps_order_trans [OF keeps_order_responses keeps_order_trans [OF keeps_order_activeFn keeps_order_complete]]])


lemma keeps_order_toObject: "toObject s = (res, s') \<Longrightarrow> keeps_order s s'"
  unfolding toObject_def Let_def
  by (auto split: if_splits prod.splits sum.splits option.splits
      intro: keeps_order_refl keeps_order_activeFn
        keeps_order_trans [OF keeps_order_activeFn keeps_order_activeFn])

lemma keeps_order_buildOrchestratedRequest:
  "buildOrchestratedRequest b s = (res, s') \<Longrightarrow> keeps_order s s'"
  unfolding buildOrchestratedRequest_def
  by (auto split: prod.splits sum.splits intro: keeps_order_toObject)

lemma keeps_order_getInvocationParameters:
  "getInvocationParameters s = (res, s') \<Longrightarrow> keeps_order s s'"
  unfolding getInvocationParameters_def
  by (auto split: prod.splits sum.splits option.splits
      intro: keeps_order_activeFn
        keeps_order_trans [OF keeps_order_activeFn keeps_order_activeFn]
        keeps_order_trans [OF keeps_order_activeFn
          keeps_order_trans [OF keeps_order_activeFn keeps_order_buildOrchestratedRequest]])

lemma keeps_order_next: "next r s = (res, s') \<Longrightarrow> keeps_order s s'"
  unfolding next_def Let_def
  by (auto split: prod.splits sum.splits
      intro: keeps_order_finishStep
        keeps_order_trans [OF keeps_order_finishStep keeps_order_getInvocationParameters])

lemma keeps_order_params:
  "keeps_order s (s\<lparr>steps := map (\<lambda>x. if P x then x\<lparr>params := p\<rparr> else x) (steps s)\<rparr>)"
proof -
  have "filter (\<lambda>x. status x = Active) (map (\<lambda>x. if P x then x\<lparr>params := p\<rparr> else x) xs)
        = map (\<lambda>x. if P x then x\<lparr>params := p\<rparr> else x) (filter (\<lambda>x. status x = Active) xs)" for xs
    by (induction xs) auto
  moreover have "list_all2 (\<lambda>x y. status_rank (status x) \<le> status_rank (status y)) xs
          (map (\<lambda>x. if P x then x\<lparr>params := p\<rparr> else x) xs)" for xs
    by (induction xs) auto
  ultimately show ?thesis by (simp add: keeps_order_def)
qed

lemma ingestSteps_nonempty: "steps s \<noteq> [] \<Longrightarrow> snd (ingestSteps request sts s) = s"
  by (simp add: ingestSteps_def)

lemma ingestSteps_empty:
  "steps s = [] \<Longrightarrow> keeps_order (s\<lparr>steps := sts\<rparr>) (snd (ingestSteps request sts s))"
  unfolding ingestSteps_def Let_def
  by (auto split: prod.splits sum.splits option.splits
      intro: keeps_order_activeFn
        keeps_order_trans [OF keeps_order_activeFn keeps_order_params [where P = "\<lambda>x. False", simplified]]
        keeps_order_trans [OF keeps_order_activeFn keeps_order_params])


lemma status_counts:
  "length (filter (\<lambda>x. status x = Completed) xs) + length (filter (\<lambda>x. status x = Active) xs) +
   length (filter (\<lambda>x. status x = Assigned) xs) + length (filter (\<lambda>x. status x = Skipped) xs)
   = length xs"
proof (induction xs)
  case Nil
  then show ?case by simp
next
  case (Cons x xs)
  then show ?case by (cases "status x") simp_all
qed

lemma keeps_order_nth:
  assumes "keeps_order s s'"
  shows "length (steps s) \<le> length (steps s') \<and>
         (\<forall>i<length (steps s).
            status_rank (status (steps s ! i)) \<le> status_rank (status (steps s' ! i)))"
  using assms by (auto simp: keeps_order_def list_all2_conv_all_nth)

lemma perform_forward:
  "length (steps s) \<le> length (steps (perform op s)) \<and>
   (\<forall>i<length (steps s).
      status_rank (status (steps s ! i)) \<le> status_rank (status (steps (perform op s) ! i)))"
proof (cases op)
  case (Add a p t)
  then show ?thesis by (simp add: add_def nth_append)
next
  case (OnCondition fn a p)
  then show ?thesis by (simp add: onCondition_def nth_append)
next
  case (IngestSteps request sts)
  show ?thesis
  proof (cases "steps s = []")
    case True
    then show ?thesis by simp
  next
    case False
    then show ?thesis using IngestSteps by (simp add: ingestSteps_nonempty)
  qed
next
  case (Next r)
  have "keeps_order s (snd (next r s))"
    by (rule keeps_order_next [of r s "fst (next r s)"]) simp
  then show ?thesis using Next by (simp add: keeps_order_nth)
next
  case (FinishStep r)
  have "keeps_order s (snd (finishStep r s))"
    by (rule keeps_order_finishStep [of r s "fst (finishStep r s)"]) simp
  then show ?thesis using FinishStep by (simp add: keeps_order_nth)
next
  case ReadActiveFn
  have "keeps_order s (snd (activeFn s))"
    by (rule keeps_order_activeFn [of s "fst (activeFn s)"]) simp
  then show ?thesis using ReadActiveFn by (simp add: keeps_order_nth)
qed

lemma perform_one_active:
  assumes "length (filter (\<lambda>x. status x = Active) (steps s)) \<le> 1"
    and "\<And>request sts. op = IngestSteps request sts \<Longrightarrow>
           length (filter (\<lambda>x. status x = Active) sts) \<le> 1"
  shows "length (filter (\<lambda>x. status x = Active) (steps (perform op s))) \<le> 1"
proof (cases op)
  case (Add a p t)
  then show ?thesis using assms(1) by (simp add: add_def)
next
  case (OnCondition fn a p)
  then show ?thesis using assms(1) by (simp add: onCondition_def)
next
  case (IngestSteps request sts)
  show ?thesis
  proof (cases "steps s = []")
    case True
    from ingestSteps_empty [OF True, of sts request] assms(2) [OF IngestSteps]
    show ?thesis using IngestSteps by (simp add: keeps_order_def)
  next
    case False
    then show ?thesis using IngestSteps assms(1) by (simp add: ingestSteps_nonempty)
  qed
next
  case (Next r)
  have "keeps_order s (snd (next r s))"
    by (rule keeps_order_next [of r s "fst (next r s)"]) simp
  then show ?thesis using Next assms(1) by (simp add: keeps_order_def)
next
  case (FinishStep r)
  have "keeps_order s (snd (finishStep r s))"
    by (rule keeps_order_finishStep [of r s "fst (finishStep r s)"]) simp
  then show ?thesis using FinishStep assms(1) by (simp add: keeps_order_def)
next
  case ReadActiveFn
  have "keeps_order s (snd (activeFn s))"
    by (rule keeps_order_activeFn [of s "fst (activeFn s)"]) simp
  then show ?thesis using ReadActiveFn assms(1) by (simp add: keeps_order_def)
qed

lemma run_one_active:
  assumes "length (filter (\<lambda>x. status x = Active) (steps s)) \<le> 1"
    and "\<forall>request sts. IngestSteps request sts \<in> set ops \<longrightarrow>
           length (filter (\<lambda>x. status x = Active) sts) \<le> 1"
  shows "length (filter (\<lambda>x. status x = Active) (steps (run ops s))) \<le> 1"
  using assms
proof (induction ops arbitrary: s)
  case Nil
  then show ?case by simp
next
  case (Cons op ops)
  have "length (filter (\<lambda>x. status x = Active) (steps (perform op s))) \<le> 1"
    using Cons.prems by (intro perform_one_active) auto
  moreover have "\<forall>request sts. IngestSteps request sts \<in> set ops \<longrightarrow>
           length (filter (\<lambda>x. status x = Active) sts) \<le> 1"
    using Cons.prems(2) by simp
  ultimately show ?case using Cons.IH by simp
qed

text \<open>
  C4, amended. Start from a new sequence and apply any calls of \<open>add\<close>,
  \<open>onCondition\<close>, \<open>ingestSteps\<close>, \<open>next\<close>, \<open>finishStep\<close> and reads of
  \<open>activeFn\<close>, where every step list handed to \<open>ingestSteps\<close> has at most one
  active step. Then at most one step is active, and the completed, active, assigned and
  skipped steps add up to all steps. Whatever the sequence, one call never removes a
  step and never moves the status of a step back in the order assigned, active,
  completed, skipped.
\<close>

theorem run_keeps_invariants:
  assumes "\<forall>request sts. IngestSteps request sts \<in> set ops \<longrightarrow>
             length (filter (\<lambda>x. status x = Active) sts) \<le> 1"
  shows "(let s = run ops new_LambdaSequence
          in length (filter (\<lambda>x. status x = Active) (steps s)) \<le> 1 \<and>
             length (completed s) + length (filter (\<lambda>x. status x = Active) (steps s)) +
             length (remaining s) + length (filter (\<lambda>x. status x = Skipped) (steps s))
               = length (steps s)) \<and>
         (\<forall>op s. length (steps s) \<le> length (steps (perform op s)) \<and>
            (\<forall>i<length (steps s).
               status_rank (status (steps s ! i))
                 \<le> status_rank (status (steps (perform op s) ! i))))"
proof -
  have "length (filter (\<lambda>x. status x = Active) (steps (run ops new_LambdaSequence))) \<le> 1"
    using assms by (intro run_one_active) (simp_all add: new_LambdaSequence_def)
  then show ?thesis
    using status_counts perform_forward
    by (simp add: Let_def completed_def remaining_def)
qed

theorem run_keeps_invariants_witness:
  "length (filter (\<lambda>x. status x = Active)
      [\<lparr>arn = ''A'', params = [], stype = Task, status = Active,
         step_onCondition = None, step_onError = None\<rparr>,
       \<lparr>arn = ''B'', params = [], stype = Task, status = Assigned,
         step_onCondition = None, step_onError = None\<rparr>]) \<le> 1 \<and>
   map status (steps (run
      [IngestSteps (JObj [])
         [\<lparr>arn = ''A'', params = [], stype = Task, status = Active,
            step_onCondition = None, step_onError = None\<rparr>,
          \<lparr>arn = ''B'', params = [], stype = Task, status = Assigned,
            step_onCondition = None, step_onError = None\<rparr>],
       Add ''C'' [] Task,
       Next (JNum 1)] new_LambdaSequence)) = [Completed, Active, Assigned] \<and>
   length (filter (\<lambda>x. status x = Active) (steps (run
      [IngestSteps (JObj [])
         [\<lparr>arn = ''A'', params = [], stype = Task, status = Active,
            step_onCondition = None, step_onError = None\<rparr>,
          \<lparr>arn = ''B'', params = [], stype = Task, status = Assigned,
            step_onCondition = None, step_onError = None\<rparr>],
       Add ''C'' [] Task,
       Next (JNum 1)] new_LambdaSequence))) \<le> 1"
  using run_keeps_invariants [of
      "[IngestSteps (JObj [])
         [\<lparr>arn = ''A'', params = [], stype = Task, status = Active,
            step_onCondition = None, step_onError = None\<rparr>,
          \<lparr>arn = ''B'', params = [], stype = Task, status = Assigned,
            step_onCondition = None, step_onError = None\<rparr>],
       Add ''C'' [] Task,
       Next (JNum 1)]"]
  by (simp add: next_def finishStep_def getInvocationParameters_def activeFn.simps
      resolveRequestProperties_def buildOrchestratedRequest_def toObject_def isSequence_def
      completed_def remaining_def default_param_def resolve_value_def isDynamic_def Let_def
      new_LambdaSequence_def ingestSteps_def add_def spread_def)

text \<open>
  C4 as stated fails for \<open>ingestSteps\<close>: it stores the step list it is given without
  looking at the statuses, so a list with two active steps gives a sequence with two.
\<close>

theorem ingest_two_active_counterexample:
  "length (filter (\<lambda>x. status x = Active) (steps (run
      [IngestSteps (JObj [])
         [\<lparr>arn = ''A'', params = [], stype = Task, status = Active,
            step_onCondition = None, step_onError = None\<rparr>,
          \<lparr>arn = ''B'', params = [], stype = Task, status = Active,
            step_onCondition = None, step_onError = None\<rparr>]] new_LambdaSequence))) = 2"
  by (simp add: new_LambdaSequence_def ingestSteps_def activeFn.simps spread_def)


section \<open>Claims about the wrapper\<close>

subsection \<open>Replacing a prefix\<close>

lemma substitution_plain:
  "CHR ''$'' \<notin> set template \<Longrightarrow> substitution matched front rest template = template"
  by (induction matched front rest template rule: substitution.induct) auto

lemma find_first_prefix: "pat \<noteq> [] \<Longrightarrow> find_first pat (pat @ rest) = Some ([], rest)"
  by (cases pat) auto

lemma js_replace_prefix:
  "pat \<noteq> [] \<Longrightarrow> CHR ''$'' \<notin> set replacement \<Longrightarrow>
   js_replace (pat @ rest) pat replacement = replacement @ rest"
  by (simp add: js_replace_def find_first_prefix substitution_plain)

subsection \<open>A ServerlessError thrown by the handler\<close>

text \<open>
  C6. When the user's handler throws a \<open>ServerlessError\<close>, the wrapper throws that
  error again, whatever expectations and default policy the handler registered: it is
  not wrapped, no function is invoked and the state is as before. Four fields are
  written on it: \<open>functionName\<close> from the platform context, \<open>correlationId\<close> and
  \<open>awsRequestId\<close> from the handler context, and in \<open>classification\<close> the text
  \<open>aws-orchestrate/\<close> is replaced by the function name and a slash, so that a
  classification with that prefix gets the function name as its prefix (a function
  name holds no dollar sign).
\<close>

theorem serverless_error_rethrown:
  assumes "fn_outcome hr = Inl (Serverless se)"
  shows "wrapper ev options context hr st =
           (Inl (Serverless
              (se\<lparr>functionName := Some (ctx_functionName context),
                  classification :=
                    js_replace (classification se) ''aws-orchestrate/'' (ctx_functionName context @ ''/''),
                  correlationId := Some (hc_correlationId (build_handlerContext ev context)),
                  awsRequestId := Some (hc_awsRequestId (build_handlerContext ev context))\<rparr>)),
            st) \<and>
         (\<forall>rest. classification se = ''aws-orchestrate/'' @ rest \<and>
                 CHR ''$'' \<notin> set (ctx_functionName context) \<longrightarrow>
            js_replace (classification se) ''aws-orchestrate/'' (ctx_functionName context @ ''/'')
              = ctx_functionName context @ ''/'' @ rest)"
proof
  show "wrapper ev options context hr st =
           (Inl (Serverless
              (se\<lparr>functionName := Some (ctx_functionName context),
                  classification :=
                    js_replace (classification se) ''aws-orchestrate/'' (ctx_functionName context @ ''/''),
                  correlationId := Some (hc_correlationId (build_handlerContext ev context)),
                  awsRequestId := Some (hc_awsRequestId (build_handlerContext ev context))\<rparr>)),
            st)"
    using assms
    by (simp add: wrapper_def wrapper_try_def handle_error_def conductor_catch_def enrich_def Let_def)
  show "\<forall>rest. classification se = ''aws-orchestrate/'' @ rest \<and>
                 CHR ''$'' \<notin> set (ctx_functionName context) \<longrightarrow>
            js_replace (classification se) ''aws-orchestrate/'' (ctx_functionName context @ ''/'')
              = ctx_functionName context @ ''/'' @ rest"
  proof (intro allI impI)
    fix rest
    assume h: "classification se = ''aws-orchestrate/'' @ rest \<and>
                 CHR ''$'' \<notin> set (ctx_functionName context)"
    then have "CHR ''$'' \<notin> set (ctx_functionName context @ ''/'')" by simp
    from js_replace_prefix [OF _ this, of "''aws-orchestrate/''" rest] h
    show "js_replace (classification se) ''aws-orchestrate/'' (ctx_functionName context @ ''/'')
              = ctx_functionName context @ ''/'' @ rest"
      by simp
  qed
qed

theorem serverless_error_rethrown_witness:
  "wrapper
     \<lparr>invokeLambda = (\<lambda>fn p. Inr JNull), getCorrelationId = ''c-123'',
      eventIsProxyRequest = True, apiGatewayIsProxyRequest = True, stringify = (\<lambda>v. [])\<rparr>
     \<lparr>sequenceTracker = None\<rparr>
     \<lparr>ctx_functionName = ''myHandlerFunction'', ctx_awsRequestId = ''1234''\<rparr>
     \<lparr>fn_outcome = Inl (Serverless \<lparr>httpStatus = 403, message = ''nope'',
          classification = ''aws-orchestrate/auth'', functionName = None, correlationId = None,
          awsRequestId = None\<rparr>),
      errorMgmt = \<lparr>expectations = [\<lparr>identifiedBy = (\<lambda>e. True), code = 500, handling = None\<rparr>],
                   defaultHandling = DefaultPolicy, defaultErrorCode = 500\<rparr>,
      fn_statusCode = None\<rparr>
     \<lparr>sequence = notASequence, newSequence = None, calls = []\<rparr> =
   (Inl (Serverless \<lparr>httpStatus = 403, message = ''nope'',
          classification = ''myHandlerFunction/auth'', functionName = Some ''myHandlerFunction'',
          correlationId = Some ''c-123'', awsRequestId = Some ''1234''\<rparr>),
    \<lparr>sequence = notASequence, newSequence = None, calls = []\<rparr>)"
  using serverless_error_rethrown [of
     "\<lparr>fn_outcome = Inl (Serverless \<lparr>httpStatus = 403, message = ''nope'',
          classification = ''aws-orchestrate/auth'', functionName = None, correlationId = None,
          awsRequestId = None\<rparr>),
      errorMgmt = \<lparr>expectations = [\<lparr>identifiedBy = (\<lambda>e. True), code = 500, handling = None\<rparr>],
                   defaultHandling = DefaultPolicy, defaultErrorCode = 500\<rparr>,
      fn_statusCode = None\<rparr>"
     "\<lparr>httpStatus = 403, message = ''nope'',
          classification = ''aws-orchestrate/auth'', functionName = None, correlationId = None,
          awsRequestId = None\<rparr>"
     "\<lparr>invokeLambda = (\<lambda>fn p. Inr JNull), getCorrelationId = ''c-123'',
      eventIsProxyRequest = True, apiGatewayIsProxyRequest = True, stringify = (\<lambda>v. [])\<rparr>"
     "\<lparr>sequenceTracker = None\<rparr>"
     "\<lparr>ctx_functionName = ''myHandlerFunction'', ctx_awsRequestId = ''1234''\<rparr>"
     "\<lparr>sequence = notASequence, newSequence = None, calls = []\<rparr>"]
  by (simp add: build_handlerContext_def)


subsection \<open>A tracker that fails\<close>

lemma from_sequence_not_gateway:
  assumes "LambdaSequence_from event = Inr u" and "isSequence (from_sequence u)"
  shows "from_apiGateway u = None \<and> (\<forall>gateway. event \<noteq> LambdaProxyRequest gateway)"
  using assms
  by (auto simp: LambdaSequence_from_def notASequence_def new_LambdaSequence_def isSequence_def
      split: event.splits option.splits prod.splits sum.splits)

lemma invocation_env_sequence:
  assumes "LambdaSequence_from event = Inr u" and "isSequence (from_sequence u)"
  shows "invocation_env ev event u = ev\<lparr>eventIsProxyRequest := False, apiGatewayIsProxyRequest := False\<rparr>"
  using from_sequence_not_gateway [OF assms]
  by (cases event) (simp_all add: invocation_env_def)

lemma continue_sequence_length:
  "continue_sequence ev result st = (x, st1) \<Longrightarrow>
   length (steps (sequence st1)) = length (steps (sequence st))"
proof -
  assume c: "continue_sequence ev result st = (x, st1)"
  have n: "length (steps (snd (next result (sequence st)))) = length (steps (sequence st))"
    using keeps_order_next [of result "sequence st" "fst (next result (sequence st))"
        "snd (next result (sequence st))"]
    by (auto simp: keeps_order_def dest: list_all2_lengthD)
  show ?thesis
    using c n
    by (auto simp: continue_sequence_def invoke_def split: if_splits prod.splits sum.splits)
qed

lemma start_new_sequence_sequence:
  "start_new_sequence ev st = (x, st1) \<Longrightarrow> sequence st1 = sequence st"
  by (auto simp: start_new_sequence_def invokeNewSequence_def invoke_def
      split: if_splits prod.splits sum.splits option.splits)


text \<open>
  C5, amended. The invocation is part of a sequence, so its event is no gateway request
  and nothing is answered in the gateway's form. The handler has returned, the
  continuation and the start of a registered sequence have not thrown, a tracker is
  configured, and the invocation of the tracker throws \<open>e\<close>, which is no
  \<open>ServerlessError\<close> and matches no expectation. Under the default policy the wrapper
  throws \<open>UnhandledError(defaultErrorCode, e)\<close> inside a \<open>RethrowError\<close>, unless the
  active step carries an \<open>onError\<close> tuple (its function is invoked and \<open>undefined\<close>
  returned, or its failure thrown) or the read of the active step throws. When the
  default policy is a handler function that returns \<open>true\<close> for \<open>e\<close>, the wrapper
  returns the result of the user's handler.
\<close>

theorem tracker_failure_is_handled_as_error:
  assumes unboxed: "LambdaSequence_from event = Inr u"
    and part: "isSequence (from_sequence u)"
    and ok: "fn_outcome hr = Inr result"
    and cont: "continue_sequence (invocation_env ev event u) result
                 \<lparr>sequence = from_sequence u, newSequence = registered, calls = []\<rparr> = (Inr (), st1)"
    and new: "start_new_sequence (invocation_env ev event u) st1 = (Inr (), st2)"
    and tracker: "sequenceTracker options = Some tracker" "tracker \<noteq> []"
    and fails: "invokeLambda ev tracker (TrackerStatus (getCorrelationId ev) (sequence st2)) = Inl e"
    and plain: "\<forall>se. e \<noteq> Serverless se"
    and unmatched: "findError e (errorMgmt hr) = None"
  shows "(let st3 = st2\<lparr>calls := calls st2 @
                       [(tracker, TrackerStatus (getCorrelationId ev) (sequence st2))]\<rparr>;
              unhandled = UnhandledError (defaultErrorCode (errorMgmt hr)) e;
              outcome = wrapped ev options context hr registered event
          in (defaultHandling (errorMgmt hr) = DefaultPolicy \<longrightarrow>
                (case activeFn (sequence st3) of
                   (Inl thrown_by_getter, sequence') \<Rightarrow>
                     outcome = (Inl thrown_by_getter, st3\<lparr>sequence := sequence'\<rparr>)
                 | (Inr None, sequence') \<Rightarrow>
                     outcome = (Inl (RethrowError unhandled), st3\<lparr>sequence := sequence'\<rparr>)
                 | (Inr (Some a), sequence') \<Rightarrow>
                     (case step_onError a of
                        Some (OrchestratedErrorForwarder target ps) \<Rightarrow>
                          fst outcome =
                            (case invokeLambda ev target (Params ps) of
                               Inl e' \<Rightarrow> Inl e'
                             | Inr r \<Rightarrow> Inr (Result JUndefined))
                      | _ \<Rightarrow>
                          outcome = (Inl (RethrowError unhandled), st3\<lparr>sequence := sequence'\<rparr>)))) \<and>
             (\<forall>defaultHandlerFn.
                defaultHandling (errorMgmt hr) = HandlerFn defaultHandlerFn \<and>
                defaultHandlerFn e = Inr (JBool True) \<longrightarrow>
                outcome = (Inr (Result result), st3)))"
proof -
  define ev0 where "ev0 = invocation_env ev event u"
  define st0 where "st0 = \<lparr>sequence = from_sequence u, newSequence = registered, calls = []\<rparr>"
  define st3 where "st3 = st2\<lparr>calls := calls st2 @
                       [(tracker, TrackerStatus (getCorrelationId ev) (sequence st2))]\<rparr>"
  have ev0: "ev0 = ev\<lparr>eventIsProxyRequest := False, apiGatewayIsProxyRequest := False\<rparr>"
    unfolding ev0_def using unboxed part by (rule invocation_env_sequence)
  have run: "wrapped ev options context hr registered event = wrapper ev0 options context hr st0"
    using unboxed by (simp add: wrapped_def ev0_def st0_def)
  have "length (steps (sequence st1)) = length (steps (sequence st0))"
    using cont unfolding ev0_def [symmetric] st0_def [symmetric] by (rule continue_sequence_length)
  moreover have "sequence st2 = sequence st1"
    using new by (rule start_new_sequence_sequence)
  ultimately have still: "isSequence (sequence st2)"
    using part by (simp add: isSequence_def st0_def)
  have notify: "notify_tracker ev0 options st2 = (Inl e, st3)"
    using tracker fails still by (simp add: notify_tracker_def invoke_def st3_def ev0)
  have tried: "wrapper_try ev0 options hr st0 = (Inl (e, result), st3)"
    using ok cont new notify
    unfolding ev0_def [symmetric] st0_def [symmetric] by (simp add: wrapper_try_def)
  have handled: "handle_error ev0 context (errorMgmt hr) e result st3 =
      unfound_error ev0 False (errorMgmt hr) e result st3"
    using plain unmatched
    by (cases e) (auto simp: handle_error_def Let_def ev0)
  have default: "defaultHandling (errorMgmt hr) = DefaultPolicy \<longrightarrow>
                (case activeFn (sequence st3) of
                   (Inl thrown_by_getter, sequence') \<Rightarrow>
                     wrapper ev0 options context hr st0 = (Inl thrown_by_getter, st3\<lparr>sequence := sequence'\<rparr>)
                 | (Inr None, sequence') \<Rightarrow>
                     wrapper ev0 options context hr st0 =
                       (Inl (RethrowError (UnhandledError (defaultErrorCode (errorMgmt hr)) e)),
                        st3\<lparr>sequence := sequence'\<rparr>)
                 | (Inr (Some a), sequence') \<Rightarrow>
                     (case step_onError a of
                        Some (OrchestratedErrorForwarder target ps) \<Rightarrow>
                          fst (wrapper ev0 options context hr st0) =
                            (case invokeLambda ev target (Params ps) of
                               Inl e' \<Rightarrow> Inl e'
                             | Inr r \<Rightarrow> Inr (Result JUndefined))
                      | _ \<Rightarrow>
                          wrapper ev0 options context hr st0 =
                            (Inl (RethrowError (UnhandledError (defaultErrorCode (errorMgmt hr)) e)),
                             st3\<lparr>sequence := sequence'\<rparr>)))"
    using tried handled
    by (auto simp: wrapper_def unfound_error_def surface_def conductor_catch_def invoke_def Let_def ev0
        split: prod.splits sum.splits option.splits OrchestratedError.splits)
  have resolved: "\<forall>defaultHandlerFn.
                defaultHandling (errorMgmt hr) = HandlerFn defaultHandlerFn \<and>
                defaultHandlerFn e = Inr (JBool True) \<longrightarrow>
                wrapper ev0 options context hr st0 = (Inr (Result result), st3)"
    using tried handled
    by (auto simp: wrapper_def unfound_error_def)
  show ?thesis
    unfolding Let_def st3_def [symmetric] run using default resolved by blast
qed


theorem tracker_failure_witness:
  "fst (wrapped
     \<lparr>invokeLambda = (\<lambda>fn p. if fn = ''tracker'' then Inl (JsError ''down'') else Inr JNull),
      getCorrelationId = ''c-1'', eventIsProxyRequest = False, apiGatewayIsProxyRequest = False,
      stringify = (\<lambda>v. [])\<rparr>
     \<lparr>sequenceTracker = Some ''tracker''\<rparr>
     \<lparr>ctx_functionName = ''fnB'', ctx_awsRequestId = ''1234''\<rparr>
     \<lparr>fn_outcome = Inr (JObj [(''ok'', JBool True)]),
      errorMgmt = \<lparr>expectations = [], defaultHandling = DefaultPolicy, defaultErrorCode = 500\<rparr>,
      fn_statusCode = None\<rparr>
     None
     (OrchestratedRequest (IsSequence 2 1 (Some ''B'') [''A''] []
        [\<lparr>arn = ''A'', params = [], stype = Task, status = Completed,
           step_onCondition = None, step_onError = None\<rparr>,
         \<lparr>arn = ''B'', params = [], stype = Task, status = Active,
           step_onCondition = None, step_onError = None\<rparr>]
        [(''A'', JNum 1)]))) =
   Inl (RethrowError (UnhandledError 500 (JsError ''down''))) \<and>
   fst (wrapped
     \<lparr>invokeLambda = (\<lambda>fn p. if fn = ''tracker'' then Inl (JsError ''down'') else Inr JNull),
      getCorrelationId = ''c-1'', eventIsProxyRequest = False, apiGatewayIsProxyRequest = False,
      stringify = (\<lambda>v. [])\<rparr>
     \<lparr>sequenceTracker = Some ''tracker''\<rparr>
     \<lparr>ctx_functionName = ''fnB'', ctx_awsRequestId = ''1234''\<rparr>
     \<lparr>fn_outcome = Inr (JObj [(''ok'', JBool True)]),
      errorMgmt = \<lparr>expectations = [], defaultHandling = HandlerFn (\<lambda>e. Inr (JBool True)),
                   defaultErrorCode = 500\<rparr>,
      fn_statusCode = None\<rparr>
     None
     (OrchestratedRequest (IsSequence 2 1 (Some ''B'') [''A''] []
        [\<lparr>arn = ''A'', params = [], stype = Task, status = Completed,
           step_onCondition = None, step_onError = None\<rparr>,
         \<lparr>arn = ''B'', params = [], stype = Task, status = Active,
           step_onCondition = None, step_onError = None\<rparr>]
        [(''A'', JNum 1)]))) =
   Inr (Result (JObj [(''ok'', JBool True)]))"
proof -
  let ?ev = "\<lparr>invokeLambda = (\<lambda>fn p. if fn = ''tracker'' then Inl (JsError ''down'') else Inr JNull),
      getCorrelationId = ''c-1'', eventIsProxyRequest = False, apiGatewayIsProxyRequest = False,
      stringify = (\<lambda>v. [])\<rparr>"
  let ?options = "\<lparr>sequenceTracker = Some ''tracker''\<rparr>"
  let ?ctx = "\<lparr>ctx_functionName = ''fnB'', ctx_awsRequestId = ''1234''\<rparr>"
  let ?hr1 = "\<lparr>fn_outcome = Inr (JObj [(''ok'', JBool True)]),
      errorMgmt = \<lparr>expectations = [], defaultHandling = DefaultPolicy, defaultErrorCode = 500\<rparr>,
      fn_statusCode = None\<rparr>"
  let ?hr2 = "\<lparr>fn_outcome = Inr (JObj [(''ok'', JBool True)]),
      errorMgmt = \<lparr>expectations = [], defaultHandling = HandlerFn (\<lambda>e. Inr (JBool True)),
                   defaultErrorCode = 500\<rparr>,
      fn_statusCode = None\<rparr>"
  let ?seq = "\<lparr>steps = [\<lparr>arn = ''A'', params = [], stype = Task, status = Completed,
                     step_onCondition = None, step_onError = None\<rparr>,
                   \<lparr>arn = ''B'', params = [], stype = Task, status = Active,
                     step_onCondition = None, step_onError = None\<rparr>],
          responses = [(''A'', JNum 1)]\<rparr>"
  let ?event = "OrchestratedRequest (IsSequence 2 1 (Some ''B'') [''A''] []
        [\<lparr>arn = ''A'', params = [], stype = Task, status = Completed,
           step_onCondition = None, step_onError = None\<rparr>,
         \<lparr>arn = ''B'', params = [], stype = Task, status = Active,
           step_onCondition = None, step_onError = None\<rparr>]
        [(''A'', JNum 1)])"
  let ?u = "\<lparr>from_sequence = ?seq, from_apiGateway = None\<rparr>"
  let ?st = "\<lparr>sequence = ?seq, newSequence = None, calls = []\<rparr>"
  have unboxed: "LambdaSequence_from ?event = Inr ?u"
    by (simp add: LambdaSequence_from_def LambdaSequence_deserialize_def deserialize_def
        new_LambdaSequence_def Let_def)
  have part: "isSequence (from_sequence ?u)" by (simp add: isSequence_def)
  have ok1: "fn_outcome ?hr1 = Inr (JObj [(''ok'', JBool True)])" by simp
  have ok2: "fn_outcome ?hr2 = Inr (JObj [(''ok'', JBool True)])" by simp
  have cont: "continue_sequence (invocation_env ?ev ?event ?u) (JObj [(''ok'', JBool True)])
                \<lparr>sequence = from_sequence ?u, newSequence = None, calls = []\<rparr> = (Inr (), ?st)"
    by (simp add: continue_sequence_def isSequence_def isDone_def nextFn_def remaining_def)
  have new: "start_new_sequence (invocation_env ?ev ?event ?u) ?st = (Inr (), ?st)"
    by (simp add: start_new_sequence_def getNewSequence_def notASequence_def
        new_LambdaSequence_def isSequence_def)
  have t1: "sequenceTracker ?options = Some ''tracker''" by simp
  have t2: "''tracker'' \<noteq> []" by simp
  have fails: "invokeLambda ?ev ''tracker'' (TrackerStatus (getCorrelationId ?ev) (sequence ?st))
                 = Inl (JsError ''down'')" by simp
  have plain: "\<forall>se. JsError ''down'' \<noteq> Serverless se" by simp
  have unmatched1: "findError (JsError ''down'') (errorMgmt ?hr1) = None" by (simp add: findError_def)
  have unmatched2: "findError (JsError ''down'') (errorMgmt ?hr2) = None" by (simp add: findError_def)
  from tracker_failure_is_handled_as_error
         [OF unboxed part ok1 cont new t1 t2 fails plain unmatched1, of ?ctx]
  have first: "fst (wrapped ?ev ?options ?ctx ?hr1 None ?event) =
                 Inl (RethrowError (UnhandledError 500 (JsError ''down'')))"
    by (simp add: Let_def activeFn.simps)
  from tracker_failure_is_handled_as_error
         [OF unboxed part ok2 cont new t1 t2 fails plain unmatched2, of ?ctx]
  have second: "fst (wrapped ?ev ?options ?ctx ?hr2 None ?event) =
                  Inr (Result (JObj [(''ok'', JBool True)]))"
    by (simp add: Let_def)
  from first second show ?thesis by (rule conjI)
qed

text \<open>
  C5 as stated fails: with the default policy a failing tracker makes the wrapper throw,
  although the handler returned a result.
\<close>

theorem tracker_failure_counterexample:
  "fst (wrapped
     \<lparr>invokeLambda = (\<lambda>fn p. if fn = ''tracker'' then Inl (JsError ''down'') else Inr JNull),
      getCorrelationId = ''c-1'', eventIsProxyRequest = False, apiGatewayIsProxyRequest = False,
      stringify = (\<lambda>v. [])\<rparr>
     \<lparr>sequenceTracker = Some ''tracker''\<rparr>
     \<lparr>ctx_functionName = ''fnB'', ctx_awsRequestId = ''1234''\<rparr>
     \<lparr>fn_outcome = Inr (JObj [(''ok'', JBool True)]),
      errorMgmt = \<lparr>expectations = [], defaultHandling = DefaultPolicy, defaultErrorCode = 500\<rparr>,
      fn_statusCode = None\<rparr>
     None
     (BareRequest (JObj [(''n'', JNum 2)])
        (Some [\<lparr>arn = ''A'', params = [], stype = Task, status = Completed,
                 step_onCondition = None, step_onError = None\<rparr>,
               \<lparr>arn = ''B'', params = [], stype = Task, status = Active,
                 step_onCondition = None, step_onError = None\<rparr>]))) =
   Inl (RethrowError (UnhandledError 500 (JsError ''down'')))"
  by (simp add: wrapped_def LambdaSequence_from_def ingestSteps_def spread_def invocation_env_def
      wrapper_def wrapper_try_def continue_sequence_def start_new_sequence_def
      getNewSequence_def notASequence_def new_LambdaSequence_def notify_tracker_def invoke_def
      handle_error_def findError_def unfound_error_def surface_def conductor_catch_def
      isSequence_def isDone_def nextFn_def remaining_def activeFn.simps Let_def)

subsection \<open>The onError of the active step\<close>

text \<open>
  C8. The claim is that the \<open>onError\<close> of the active step has the final say: a
  function is called with the error and a truthy return resolves it, a tuple has its
  function invoked with the error. The code does neither: a handler function that
  would return true is never called and the error is thrown on; for a tuple the named
  function is invoked with the tuple's own parameters, the error is not passed.
\<close>

theorem conductor_handler_never_called:
  "fst (wrapper
     \<lparr>invokeLambda = (\<lambda>fn p. Inr JNull),
      getCorrelationId = ''c-1'', eventIsProxyRequest = False, apiGatewayIsProxyRequest = False,
      stringify = (\<lambda>v. [])\<rparr>
     \<lparr>sequenceTracker = None\<rparr>
     \<lparr>ctx_functionName = ''fnB'', ctx_awsRequestId = ''1234''\<rparr>
     \<lparr>fn_outcome = Inl (JsError ''boom''),
      errorMgmt = \<lparr>expectations = [], defaultHandling = DefaultPolicy, defaultErrorCode = 500\<rparr>,
      fn_statusCode = None\<rparr>
     \<lparr>sequence =
        \<lparr>steps = [\<lparr>arn = ''B'', params = [], stype = Task, status = Active,
                     step_onCondition = None,
                     step_onError = Some (OrchestratedErrorHandler (\<lambda>e. True))\<rparr>],
          responses = []\<rparr>,
      newSequence = None, calls = []\<rparr>) =
   Inl (RethrowError (UnhandledError 500 (JsError ''boom''))) \<and>
   (let out = wrapper
     \<lparr>invokeLambda = (\<lambda>fn p. Inr JNull),
      getCorrelationId = ''c-1'', eventIsProxyRequest = False, apiGatewayIsProxyRequest = False,
      stringify = (\<lambda>v. [])\<rparr>
     \<lparr>sequenceTracker = None\<rparr>
     \<lparr>ctx_functionName = ''fnB'', ctx_awsRequestId = ''1234''\<rparr>
     \<lparr>fn_outcome = Inl (JsError ''boom''),
      errorMgmt = \<lparr>expectations = [], defaultHandling = DefaultPolicy, defaultErrorCode = 500\<rparr>,
      fn_statusCode = None\<rparr>
     \<lparr>sequence =
        \<lparr>steps = [\<lparr>arn = ''B'', params = [], stype = Task, status = Active,
                     step_onCondition = None,
                     step_onError = Some (OrchestratedErrorForwarder ''onFailure'' [(''team'', JStr ''ops'')])\<rparr>],
          responses = []\<rparr>,
      newSequence = None, calls = []\<rparr>
    in fst out = Inr (Result JUndefined) \<and>
       calls (snd out) = [(''onFailure'', Params [(''team'', JStr ''ops'')])])"
  by (simp add: wrapper_def wrapper_try_def handle_error_def findError_def unfound_error_def
      surface_def conductor_catch_def invoke_def activeFn.simps Let_def)


end
